theory Spec2Isabelle
  imports Complex_Main "HOL-Library.Sublist" "HOL-Library.Log_Nat"
begin

section \<open>Data model\<close>

text \<open>
  A data frame is an ordered list of named columns. Every column (a pandas Series) carries
  one dtype and a list of cells; the missing marker (NaN, None, NaT) is the cell \<open>NA\<close>.
  A float cell is a finite double, given by the rational it denotes, or an infinity; NaN is
  the missing marker itself. Column names are byte strings.

  The dtypes are those a parsed CSV file can have: \<open>int64\<close>, \<open>float64\<close>, \<open>bool\<close>,
  \<open>object\<close>, the text dtype \<open>str\<close> of pandas 3, \<open>category\<close>, and
  \<open>datetime64\<close> with its resolution and, when the column is time-zone aware, its zone:
  \<open>datetime64[ns]\<close> is \<open>Datetime64 Nanos None\<close>, \<open>datetime64[ns, UTC]\<close> is
  \<open>Datetime64 Nanos (Some ''UTC'')\<close>.
\<close>

datatype time_unit = Seconds | Millis | Micros | Nanos

datatype dtype =
    Int64
  | Float64
  | Boolean
  | Object
  | StringDtype
  | Category
  | Datetime64 time_unit "string option"

datatype cell = NA | Num rat | PosInf | NegInf | Str string | Flag bool | Time int

datatype series = Series (dtype: dtype) (cells: "cell list")

type_synonym dataframe = "(string \<times> series) list"

type_synonym transformation_log = "string list"

text \<open>\<open>df.columns\<close>, \<open>df[col]\<close> and the write-back of a column into the frame.\<close>

definition columns :: "dataframe \<Rightarrow> string list" where
  "columns df = map fst df"

definition getitem :: "dataframe \<Rightarrow> string \<Rightarrow> series option" where
  "getitem df col = map_of df col"

fun setitem :: "dataframe \<Rightarrow> string \<Rightarrow> series \<Rightarrow> dataframe" where
  "setitem [] col s = [(col, s)]"
| "setitem ((n, t) # df) col s = (if n = col then (n, s) # df else (n, t) # setitem df col s)"

text \<open>\<open>df.shape\<close>: the number of rows is the common length of the columns.\<close>

definition nrows :: "dataframe \<Rightarrow> nat" where
  "nrows df = (case df of [] \<Rightarrow> 0 | (n, s) # rest \<Rightarrow> length (cells s))"

definition shape :: "dataframe \<Rightarrow> nat \<times> nat" where
  "shape df = (nrows df, length df)"

definition wf_frame :: "dataframe \<Rightarrow> bool" where
  "wf_frame df \<longleftrightarrow> distinct (columns df) \<and> list_all (\<lambda>(n, s). length (cells s) = nrows df) df"

text \<open>Row \<open>i\<close> of the frame, and all rows in index order.\<close>

definition row :: "dataframe \<Rightarrow> nat \<Rightarrow> cell list" where
  "row df i = map (\<lambda>(n, s). cells s ! i) df"

definition rows_of :: "dataframe \<Rightarrow> cell list list" where
  "rows_of df = map (row df) [0..<nrows df]"

section \<open>Rendering of numbers and tuples (Python \<open>str\<close>)\<close>

definition squote :: "string \<Rightarrow> string" where
  "squote s = [CHR 0x27] @ s @ [CHR 0x27]"

definition digit_char :: "nat \<Rightarrow> char" where
  "digit_char d = ''0123456789'' ! d"

fun show_nat :: "nat \<Rightarrow> string" where
  "show_nat n = (if n < 10 then [digit_char n] else show_nat (n div 10) @ [digit_char (n mod 10)])"

declare show_nat.simps [simp del]

definition show_shape :: "nat \<times> nat \<Rightarrow> string" where
  "show_shape sh = ''('' @ show_nat (fst sh) @ '', '' @ show_nat (snd sh) @ '')''"

section \<open>Binary floating point\<close>

text \<open>
  Rounding to the nearest double, ties to the even significand: a positive rational between
  \<open>2^e\<close> and \<open>2^(e+1)\<close> is rounded to a multiple of \<open>2^(e-52)\<close>, below \<open>2^(-1022)\<close> to a
  multiple of \<open>2^(-1074)\<close>; a result of magnitude \<open>2^1024\<close> or more is an infinity. The
  sign of zero is not kept.
\<close>

definition round_half_even :: "rat \<Rightarrow> int" where
  "round_half_even y = (let f = \<lfloor>y\<rfloor>; r = y - of_int f
                        in if r < 1/2 then f else if r > 1/2 then f + 1
                           else if even f then f else f + 1)"

definition pow2 :: "int \<Rightarrow> rat" where
  "pow2 e = 2 powi e"

definition floor_log2 :: "rat \<Rightarrow> int" where
  "floor_log2 x = (let d = bitlen (fst (quotient_of x)) - bitlen (snd (quotient_of x))
                   in if x < pow2 d then d - 1 else d)"

definition nearest_double :: "rat \<Rightarrow> rat" where
  "nearest_double x =
     (if x = 0 then 0
      else let e = max (floor_log2 \<bar>x\<bar>) (- 1022);
               ulp = pow2 (e - 52);
               r = of_int (round_half_even (\<bar>x\<bar> / ulp)) * ulp
           in if x < 0 then - r else r)"

definition round_double :: "rat \<Rightarrow> cell" where
  "round_double x =
     (let r = nearest_double x
      in if r = 0 then Num 0
         else if 1024 \<le> floor_log2 \<bar>r\<bar> then (if r < 0 then NegInf else PosInf)
         else Num r)"

text \<open>Addition of two float cells and division of a float cell by a count. Opposite
  infinities add up to NaN, and NaN stays NaN.\<close>

fun float_add :: "cell \<Rightarrow> cell \<Rightarrow> cell" where
  "float_add (Num a) (Num b) = round_double (a + b)"
| "float_add PosInf NegInf = NA"
| "float_add NegInf PosInf = NA"
| "float_add PosInf (Num b) = PosInf"
| "float_add (Num a) PosInf = PosInf"
| "float_add PosInf PosInf = PosInf"
| "float_add NegInf (Num b) = NegInf"
| "float_add (Num a) NegInf = NegInf"
| "float_add NegInf NegInf = NegInf"
| "float_add x y = NA"

fun float_div :: "cell \<Rightarrow> nat \<Rightarrow> cell" where
  "float_div (Num a) n = (if n = 0 then NA else round_double (a / of_nat n))"
| "float_div PosInf n = PosInf"
| "float_div NegInf n = NegInf"
| "float_div x n = NA"

text \<open>The mean of a list of float cells with the additions done from left to right, as
  the library does them for a short column.\<close>

definition sequential_mean :: "cell list \<Rightarrow> cell" where
  "sequential_mean vs = float_div (foldl float_add (Num 0) vs) (length vs)"

section \<open>The pandas library in use\<close>

text \<open>
  What the code leaves to the installed pandas:
  \<^item> whether a method called with \<open>inplace=True\<close> on the result of \<open>df[col]\<close> changes the
    frame: it does without copy-on-write (pandas 1 and 2) and does not with copy-on-write
    (pandas 3), where \<open>df[col]\<close> is a new object;
  \<^item> whether text has the dtype \<open>str\<close> (pandas 3), so that \<open>astype(str)\<close> gives that
    dtype and keeps missing cells, or the dtype \<open>object\<close>, where \<open>astype(str)\<close> makes
    the text \<open>nan\<close> of a missing cell;
  \<^item> the float mean of the non-missing cells of a column, a non-empty list: the order
    of its additions, and with it the rounding, is the library's.
\<close>

record pandas =
  copy_on_write :: bool
  infer_string :: bool
  float_mean :: "cell list \<Rightarrow> cell"

definition pandas2 :: pandas where
  "pandas2 = \<lparr>copy_on_write = False, infer_string = False, float_mean = sequential_mean\<rparr>"

definition pandas3 :: pandas where
  "pandas3 = \<lparr>copy_on_write = True, infer_string = True, float_mean = sequential_mean\<rparr>"

section \<open>Cleaning (utils/cleaning.py)\<close>

subsection \<open>The pandas operations the cleaning code calls\<close>

text \<open>\<open>df.select_dtypes(include=['number']).columns\<close>: integer and float columns.\<close>

definition is_number :: "dtype \<Rightarrow> bool" where
  "is_number d \<longleftrightarrow> d = Int64 \<or> d = Float64"

definition select_dtypes_number :: "dataframe \<Rightarrow> string list" where
  "select_dtypes_number df = map fst (filter (\<lambda>(n, s). is_number (dtype s)) df)"

text \<open>\<open>s.isnull().sum()\<close>.\<close>

definition isnull_sum :: "series \<Rightarrow> nat" where
  "isnull_sum s = length (filter (\<lambda>c. c = NA) (cells s))"

text \<open>\<open>s.mean()\<close> skips missing cells; over no cell at all it is NaN, otherwise it is
  the float mean of the non-missing cells.\<close>

definition notnull :: "cell list \<Rightarrow> cell list" where
  "notnull cs = filter (\<lambda>c. c \<noteq> NA) cs"

definition mean :: "pandas \<Rightarrow> series \<Rightarrow> cell" where
  "mean pd s = (let vs = notnull (cells s) in if vs = [] then NA else float_mean pd vs)"

text \<open>\<open>s.fillna(v)\<close>; filling with NaN changes nothing.\<close>

definition fillna :: "cell \<Rightarrow> series \<Rightarrow> series" where
  "fillna v s = Series (dtype s) (map (\<lambda>c. if c = NA then v else c) (cells s))"

subsection \<open>impute_missing_values\<close>

definition impute_entry :: "string \<Rightarrow> string" where
  "impute_entry col = ''df['' @ squote col @ ''].fillna(df['' @ squote col
     @ ''].mean(), inplace=True)  # Imputed missing values in '' @ squote col"

text \<open>
  The loop over \<open>numeric_cols\<close>, threading the frame and the log. The statement
  \<open>df[col].fillna(df[col].mean(), inplace=True)\<close> fills the object that \<open>df[col]\<close>
  returns: without copy-on-write the filled column is the frame's column, with copy-on-write
  the frame stays as it is. The entry is appended in both cases. The names come from the
  frame itself, so \<open>df[col]\<close> finds every one of them.
\<close>

fun impute_loop :: "pandas \<Rightarrow> string list \<Rightarrow> dataframe \<Rightarrow> transformation_log \<Rightarrow> dataframe \<times> transformation_log" where
  "impute_loop pd [] df tlog = (df, tlog)"
| "impute_loop pd (col # cols) df tlog =
     (case getitem df col of
        None \<Rightarrow> impute_loop pd cols df tlog
      | Some s \<Rightarrow>
          if isnull_sum s > 0
          then impute_loop pd cols
                 (if copy_on_write pd then df else setitem df col (fillna (mean pd s) s))
                 (tlog @ [impute_entry col])
          else impute_loop pd cols df tlog)"

definition impute_missing_values :: "pandas \<Rightarrow> dataframe \<Rightarrow> transformation_log \<Rightarrow> dataframe \<times> transformation_log" where
  "impute_missing_values pd df tlog = impute_loop pd (select_dtypes_number df) df tlog"

subsection \<open>drop_duplicates\<close>

text \<open>
  \<open>DataFrame.duplicated\<close> with the default \<open>keep='first'\<close>: one pass over the rows with
  the rows seen so far; a row is marked when it was seen before. Missing cells compare equal.
\<close>

fun duplicated_scan :: "'a list \<Rightarrow> 'a list \<Rightarrow> bool list" where
  "duplicated_scan seen [] = []"
| "duplicated_scan seen (r # rs) =
     (if r \<in> set seen then True # duplicated_scan seen rs
      else False # duplicated_scan (r # seen) rs)"

definition duplicated :: "dataframe \<Rightarrow> bool list" where
  "duplicated df = duplicated_scan [] (rows_of df)"

text \<open>Boolean indexing with the negated mask.\<close>

fun unmasked :: "'a list \<Rightarrow> bool list \<Rightarrow> 'a list" where
  "unmasked (x # xs) (d # ds) = (if d then unmasked xs ds else x # unmasked xs ds)"
| "unmasked xs ds = []"

definition drop_entry :: "nat \<times> nat \<Rightarrow> nat \<times> nat \<Rightarrow> string" where
  "drop_entry sh0 sh1 = ''df.drop_duplicates(inplace=True)  # Dropped duplicates. Shape from ''
     @ show_shape sh0 @ '' to '' @ show_shape sh1"

definition drop_duplicates :: "dataframe \<Rightarrow> transformation_log \<Rightarrow> dataframe \<times> transformation_log" where
  "drop_duplicates df tlog =
     (let initial_shape = shape df;
          mask = duplicated df;
          df' = map (\<lambda>(n, s). (n, Series (dtype s) (unmasked (cells s) mask))) df
      in (df', tlog @ [drop_entry initial_shape (shape df')]))"

subsection \<open>Repeated imputation\<close>

text \<open>\<open>k\<close> calls of impute_missing_values in a row, on the same frame and log.\<close>

primrec impute_repeat :: "pandas \<Rightarrow> nat \<Rightarrow> dataframe \<Rightarrow> transformation_log \<Rightarrow> dataframe \<times> transformation_log" where
  "impute_repeat pd 0 df tlog = (df, tlog)"
| "impute_repeat pd (Suc k) df tlog =
     (case impute_repeat pd k df tlog of (df', tlog') \<Rightarrow> impute_missing_values pd df' tlog')"

section \<open>Readiness analysis (utils/eda.py)\<close>












section \<open>Export (app.py)\<close>

subsection \<open>Exceptions, clock and file system\<close>

datatype exn =
    AttributeError string
  | OSError string
  | TemplateNotFound string
  | ValueError string
  | APIError string
  | ParserError string

fun exn_str :: "exn \<Rightarrow> string" where
  "exn_str (AttributeError m) = m"
| "exn_str (OSError m) = m"
| "exn_str (TemplateNotFound m) = m"
| "exn_str (ValueError m) = m"
| "exn_str (APIError m) = m"
| "exn_str (ParserError m) = m"

text \<open>\<open>datetime.now()\<close> is an input; \<open>strftime\<close> pads every field with zeros.\<close>

record datetime =
  year :: nat
  month :: nat
  day :: nat
  hour :: nat
  minute :: nat
  second :: nat

definition zero_pad :: "nat \<Rightarrow> nat \<Rightarrow> string" where
  "zero_pad w n = replicate (w - length (show_nat n)) CHR ''0'' @ show_nat n"

text \<open>The formats \<open>%Y-%m-%d %H:%M:%S\<close> and \<open>%Y%m%d_%H%M%S\<close>.\<close>

definition strftime_long :: "datetime \<Rightarrow> string" where
  "strftime_long t = zero_pad 4 (year t) @ ''-'' @ zero_pad 2 (month t) @ ''-'' @ zero_pad 2 (day t)
     @ '' '' @ zero_pad 2 (hour t) @ '':'' @ zero_pad 2 (minute t) @ '':'' @ zero_pad 2 (second t)"

definition strftime_compact :: "datetime \<Rightarrow> string" where
  "strftime_compact t = zero_pad 4 (year t) @ zero_pad 2 (month t) @ zero_pad 2 (day t)
     @ ''_'' @ zero_pad 2 (hour t) @ zero_pad 2 (minute t) @ zero_pad 2 (second t)"

text \<open>
  The file system, with paths relative to the working directory: the content of every file,
  and whether opening a path for writing succeeds. \<open>open(path, "w")\<close> followed by
  \<open>write\<close> raises OSError or replaces the file.
\<close>

record filesystem =
  files :: "string \<rightharpoonup> string"
  writable :: "string \<Rightarrow> bool"

definition write_file :: "filesystem \<Rightarrow> string \<Rightarrow> string \<Rightarrow> exn + filesystem" where
  "write_file fs path text =
     (if writable fs path then Inr (fs\<lparr>files := (files fs)(path \<mapsto> text)\<rparr>)
      else Inl (OSError path))"

definition path_join :: "string \<Rightarrow> string \<Rightarrow> string" where
  "path_join dir name = dir @ ''/'' @ name"

subsection \<open>export_transformation_script\<close>

text \<open>\<open>"\\n".join(lines)\<close>.\<close>

fun join_lines :: "string list \<Rightarrow> string" where
  "join_lines [] = []"
| "join_lines [l] = l"
| "join_lines (l # ls) = l @ [CHR 0x0A] @ join_lines ls"

fun append_steps :: "transformation_log \<Rightarrow> string list \<Rightarrow> string list" where
  "append_steps [] script_lines = script_lines"
| "append_steps (step # rest) script_lines = append_steps rest (script_lines @ [''    '' @ step])"

definition script_lines :: "datetime \<Rightarrow> transformation_log \<Rightarrow> string list" where
  "script_lines now tlog =
     append_steps tlog
       [''# Transformation Script'',
        ''# Generated on: '' @ strftime_long now,
        '''',
        ''import pandas as pd'',
        '''',
        ''def transform_data(df):'',
        ''    # Transformation steps applied'']
     @ [''    return df'']"

definition export_transformation_script ::
  "filesystem \<Rightarrow> datetime \<Rightarrow> transformation_log \<Rightarrow> exn + (string \<times> filesystem)" where
  "export_transformation_script fs now tlog =
     (let script_content = join_lines (script_lines now tlog);
          export_path = path_join ''export'' ''transformation_script.py''
      in case write_file fs export_path script_content of
           Inl e \<Rightarrow> Inl e
         | Inr fs' \<Rightarrow> Inr (export_path, fs'))"

text \<open>\<open>text.split("\\n")\<close>, to read a script back line by line.\<close>

fun split_lines :: "string \<Rightarrow> string list" where
  "split_lines [] = [[]]"
| "split_lines (c # cs) =
     (if c = CHR 0x0A then [] # split_lines cs
      else (case split_lines cs of l # ls \<Rightarrow> (c # l) # ls | [] \<Rightarrow> [[c]]))"

subsection \<open>export_eda_report and the export buttons of main\<close>

text \<open>
  The library calls behind the exports are inputs: the CSV text of a frame
  (\<open>to_csv\<close> with \<open>index=False\<close>), the HTML table of \<open>describe(include='all')\<close>, which
  raises on a frame it cannot describe, and the rendering of a template text with the
  title, the table and the log, which raises on a faulty template.
\<close>

record library =
  to_csv :: "dataframe \<Rightarrow> string"
  describe_html :: "dataframe \<Rightarrow> exn + string"
  render :: "string \<Rightarrow> string \<Rightarrow> string \<Rightarrow> transformation_log \<Rightarrow> exn + string"

text \<open>generate_eda_report (utils/eda.py): the template is loaded from the directory
  \<open>templates\<close> under the working directory.\<close>

definition generate_eda_report ::
  "library \<Rightarrow> filesystem \<Rightarrow> dataframe \<Rightarrow> transformation_log \<Rightarrow> exn + string" where
  "generate_eda_report lib fs df entries =
     (case files fs (path_join ''templates'' ''report_template.html'') of
        None \<Rightarrow> Inl (TemplateNotFound ''report_template.html'')
      | Some template \<Rightarrow>
          (case describe_html lib df of
             Inl e \<Rightarrow> Inl e
           | Inr summary_html \<Rightarrow> render lib template ''EDA Report'' summary_html entries))"

definition export_eda_report ::
  "library \<Rightarrow> filesystem \<Rightarrow> datetime \<Rightarrow> dataframe \<Rightarrow> transformation_log \<Rightarrow> exn + (string \<times> filesystem)" where
  "export_eda_report lib fs now df entries =
     (case generate_eda_report lib fs df entries of
        Inl e \<Rightarrow> Inl e
      | Inr report_html \<Rightarrow>
          (let report_path = path_join ''export'' (''eda_report_'' @ strftime_compact now @ ''.html'')
           in case write_file fs report_path report_html of
                Inl e \<Rightarrow> Inl e
              | Inr fs' \<Rightarrow> Inr (report_path, fs')))"

text \<open>The state of one run of main: the frame, the global log, the disk and what the
  page shows.\<close>

datatype notice = Info string | Warning string | Success string | Error string

record session =
  s_frame :: dataframe
  s_log :: transformation_log
  s_disk :: filesystem
  s_ui :: "notice list"

definition on_export_csv :: "library \<Rightarrow> datetime \<Rightarrow> session \<Rightarrow> exn + session" where
  "on_export_csv lib now st =
     (let csv_export_path = path_join ''export'' (''cleaned_data_'' @ strftime_compact now @ ''.csv'')
      in case write_file (s_disk st) csv_export_path (to_csv lib (s_frame st)) of
           Inl e \<Rightarrow> Inl e
         | Inr fs' \<Rightarrow>
             Inr (st\<lparr>s_disk := fs',
                     s_ui := s_ui st @ [Success (''Cleaned data exported to '' @ csv_export_path)]\<rparr>))"

definition on_export_script :: "datetime \<Rightarrow> session \<Rightarrow> exn + session" where
  "on_export_script now st =
     (case export_transformation_script (s_disk st) now (s_log st) of
        Inl e \<Rightarrow> Inl e
      | Inr (script_path, fs') \<Rightarrow>
          Inr (st\<lparr>s_disk := fs',
                  s_ui := s_ui st @ [Success (''Transformation script exported to '' @ script_path)]\<rparr>))"

definition on_export_report :: "library \<Rightarrow> datetime \<Rightarrow> session \<Rightarrow> exn + session" where
  "on_export_report lib now st =
     (case export_eda_report lib (s_disk st) now (s_frame st) (s_log st) of
        Inl e \<Rightarrow> Inl e
      | Inr (report_path, fs') \<Rightarrow>
          Inr (st\<lparr>s_disk := fs',
                  s_ui := s_ui st @ [Success (''EDA report exported to '' @ report_path)]\<rparr>))"

text \<open>
  The three \<open>if st.button(...)\<close> blocks, in the order of main. They sit in the
  \<open>try\<close> block of main: an exception ends the block at the state reached so far.
\<close>

record buttons =
  csv_clicked :: bool
  script_clicked :: bool
  report_clicked :: bool

definition export_options :: "library \<Rightarrow> datetime \<Rightarrow> buttons \<Rightarrow> session \<Rightarrow> session \<times> exn option" where
  "export_options lib now b st =
     (case (if csv_clicked b then on_export_csv lib now st else Inr st) of
        Inl e \<Rightarrow> (st, Some e)
      | Inr st1 \<Rightarrow>
          (case (if script_clicked b then on_export_script now st1 else Inr st1) of
             Inl e \<Rightarrow> (st1, Some e)
           | Inr st2 \<Rightarrow>
               (case (if report_clicked b then on_export_report lib now st2 else Inr st2) of
                  Inl e \<Rightarrow> (st2, Some e)
                | Inr st3 \<Rightarrow> (st3, None))))"

text \<open>The handler \<open>except Exception as e\<close> of main reports the exception and returns.\<close>

definition main_exports :: "library \<Rightarrow> datetime \<Rightarrow> buttons \<Rightarrow> session \<Rightarrow> session" where
  "main_exports lib now b st =
     (case export_options lib now b st of
        (st', None) \<Rightarrow> st'
      | (st', Some e) \<Rightarrow> st'\<lparr>s_ui := s_ui st' @ [Error (''Error reading the CSV file: '' @ exn_str e)]\<rparr>)"

section \<open>Ingestion (main, app.py)\<close>

text \<open>\<open>col.lower()\<close> on the bytes of a name, and the substring test \<open>sub in s\<close>. The
  letters A to Z become a to z; every other byte stays.\<close>

definition lower_char :: "char \<Rightarrow> char" where
  "lower_char c = (if 65 \<le> (of_char c :: nat) \<and> (of_char c :: nat) \<le> 90
                   then char_of (of_char c + (32 :: nat)) else c)"

definition lower :: "string \<Rightarrow> string" where
  "lower s = map lower_char s"

fun contains :: "string \<Rightarrow> string \<Rightarrow> bool" where
  "contains sub [] \<longleftrightarrow> sub = []"
| "contains sub (c # s) \<longleftrightarrow> take (length sub) (c # s) = sub \<or> contains sub s"

text \<open>\<open>sep.join(items)\<close>.\<close>

fun join_with :: "string \<Rightarrow> string list \<Rightarrow> string" where
  "join_with sep [] = []"
| "join_with sep [x] = x"
| "join_with sep (x # xs) = x @ sep @ join_with sep xs"

text \<open>
  The uploaded file is a buffer with a read position. \<open>pd.read_csv\<close> is an input: a
  parser from the text and the optional \<open>parse_dates\<close> list to a frame or an exception.
  A read hands the parser the text from the position on and leaves the position at the end.
\<close>

record upload =
  buffer :: string
  offset :: nat

type_synonym parser = "string \<Rightarrow> string list option \<Rightarrow> exn + dataframe"

definition read_csv :: "parser \<Rightarrow> upload \<Rightarrow> string list option \<Rightarrow> (exn + dataframe) \<times> upload" where
  "read_csv parse f parse_dates =
     (parse (drop (offset f) (buffer f)) parse_dates, f\<lparr>offset := length (buffer f)\<rparr>)"

definition seek :: "upload \<Rightarrow> nat \<Rightarrow> upload" where
  "seek f n = f\<lparr>offset := n\<rparr>"

text \<open>\<open>df.select_dtypes(['object']).columns\<close> names the columns of dtype \<open>object\<close>.
  \<open>s.astype(str)\<close> with text as \<open>object\<close>: every cell becomes its text, a missing cell
  the text \<open>nan\<close>; with text as \<open>str\<close>: the column gets the dtype \<open>str\<close>, and a
  missing cell stays missing. The text of a value that is not text yet is an input.\<close>

definition select_dtypes_object :: "dataframe \<Rightarrow> string list" where
  "select_dtypes_object df = map fst (filter (\<lambda>(n, s). dtype s = Object) df)"

definition str_cell :: "(cell \<Rightarrow> string) \<Rightarrow> cell \<Rightarrow> string" where
  "str_cell repr c = (case c of NA \<Rightarrow> ''nan'' | Str t \<Rightarrow> t | _ \<Rightarrow> repr c)"

definition astype_str :: "pandas \<Rightarrow> (cell \<Rightarrow> string) \<Rightarrow> series \<Rightarrow> series" where
  "astype_str pd repr s =
     (if infer_string pd
      then Series StringDtype (map (\<lambda>c. if c = NA then NA else Str (str_cell repr c)) (cells s))
      else Series Object (map (\<lambda>c. Str (str_cell repr c)) (cells s)))"

fun astype_loop :: "pandas \<Rightarrow> (cell \<Rightarrow> string) \<Rightarrow> string list \<Rightarrow> string list \<Rightarrow> dataframe \<Rightarrow> dataframe" where
  "astype_loop pd repr [] date_columns df = df"
| "astype_loop pd repr (col # cols) date_columns df =
     (if col \<notin> set date_columns
      then (case getitem df col of
              None \<Rightarrow> astype_loop pd repr cols date_columns df
            | Some s \<Rightarrow> astype_loop pd repr cols date_columns (setitem df col (astype_str pd repr s)))
      else astype_loop pd repr cols date_columns df)"

text \<open>The list comprehension \<open>[col for col in df.columns if 'date' in col.lower()]\<close>.\<close>

definition date_like :: "string list \<Rightarrow> string list" where
  "date_like cols = filter (\<lambda>col. contains ''date'' (lower col)) cols"

text \<open>
  The start of the \<open>try\<close> block of main, up to the coercion loop: the result is the frame,
  the list \<open>date_columns\<close>, the file object and what the page shows, or the exception.
\<close>

definition load_dataset ::
  "parser \<Rightarrow> pandas \<Rightarrow> (cell \<Rightarrow> string) \<Rightarrow> upload \<Rightarrow> notice list
     \<Rightarrow> exn + (dataframe \<times> string list \<times> upload \<times> notice list)" where
  "load_dataset parse pd repr uploaded_file ui =
     (case read_csv parse uploaded_file None of
        (Inl e, f1) \<Rightarrow> Inl e
      | (Inr df0, f1) \<Rightarrow>
          (let f2 = seek f1 0;
               date_columns = date_like (columns df0)
           in if date_columns \<noteq> []
              then (case read_csv parse f2 (Some date_columns) of
                      (Inl e, f3) \<Rightarrow> Inl e
                    | (Inr df, f3) \<Rightarrow>
                        Inr (astype_loop pd repr (select_dtypes_object df) date_columns df, date_columns, f3,
                             ui @ [Info (''Date parsing applied to columns: '' @ join_with '', '' date_columns)]))
              else (case read_csv parse f2 None of
                      (Inl e, f3) \<Rightarrow> Inl e
                    | (Inr df, f3) \<Rightarrow>
                        Inr (astype_loop pd repr (select_dtypes_object df) date_columns df, date_columns, f3,
                             ui @ [Warning ''No date columns detected in the dataset'']))))"

section \<open>Advisory (utils/llm.py)\<close>

text \<open>
  The process environment maps variable names to values. Of Python's module \<open>os\<close> the
  functions from an environment and a name to a value are modelled: the module defines
  \<open>getenv\<close>; it has no attribute \<open>get_env\<close>, and looking up a name it does not define
  raises AttributeError.
\<close>

type_synonym environ = "string \<rightharpoonup> string"

definition os_getattr :: "string \<Rightarrow> exn + (environ \<Rightarrow> string \<Rightarrow> string option)" where
  "os_getattr name =
     (if name = ''getenv'' then Inr (\<lambda>env key. env key)
      else Inl (AttributeError (''module '' @ squote ''os'' @ '' has no attribute '' @ squote name)))"

text \<open>
  The chat completion call is an input: from the API key, the model name, the prompt and
  the token limit to the content of the first choice, or an exception.
\<close>

type_synonym completions = "string \<Rightarrow> string \<Rightarrow> string \<Rightarrow> nat \<Rightarrow> exn + string"

text \<open>\<open>s.strip()\<close>.\<close>

definition is_space :: "char \<Rightarrow> bool" where
  "is_space c \<longleftrightarrow> c \<in> set [CHR '' '', CHR 0x09, CHR 0x0A, CHR 0x0B, CHR 0x0C, CHR 0x0D]"

definition strip :: "string \<Rightarrow> string" where
  "strip s = rev (dropWhile is_space (rev (dropWhile is_space s)))"

definition key_not_set :: string where
  "key_not_set = ''OpenAI API key not set. Please set the OPENAI_API_KEY environment variable.''"

definition get_cleaning_suggestions ::
  "environ \<Rightarrow> completions \<Rightarrow> string \<Rightarrow> string \<Rightarrow> exn + string" where
  "get_cleaning_suggestions env create data_summary ml_task =
     (case os_getattr ''get_env'' of
        Inl e \<Rightarrow> Inl e
      | Inr get_env \<Rightarrow>
          (case get_env env ''OPEN_AI_KEY'' of
             None \<Rightarrow> Inr key_not_set
           | Some openai_api_key \<Rightarrow>
               if openai_api_key = [] then Inr key_not_set
               else
                 (let prompt = ''Given the following data summary:'' @ [CHR 0x0A, CHR 0x0A]
                        @ data_summary @ [CHR 0x0A, CHR 0x0A]
                        @ ''What data cleaning steps would you recommend to prepare the data for a machine learning task?''
                        @ ''And given that the selected ML task is: '' @ ml_task @ [CHR 0x0A, CHR 0x0A]
                  in case create openai_api_key ''gpt-3.5-turbo'' prompt 150 of
                       Inl e \<Rightarrow> Inr (''Error fetching LLM suggestions: '' @ exn_str e)
                     | Inr suggestion \<Rightarrow> Inr (strip suggestion))))"

definition get_additional_checks ::
  "environ \<Rightarrow> completions \<Rightarrow> string \<Rightarrow> string \<Rightarrow> exn + string" where
  "get_additional_checks env create data_summary ml_task =
     (case os_getattr ''get_env'' of
        Inl e \<Rightarrow> Inl e
      | Inr get_env \<Rightarrow>
          (case get_env env ''OPEN_AI_KEY'' of
             None \<Rightarrow> Inr key_not_set
           | Some openai_api_key \<Rightarrow>
               if openai_api_key = [] then Inr key_not_set
               else
                 (let prompt = ''Given the following data summary:'' @ [CHR 0x0A, CHR 0x0A]
                        @ data_summary @ [CHR 0x0A, CHR 0x0A]
                        @ ''And given that the selected ML task is: '' @ ml_task @ [CHR 0x0A, CHR 0x0A]
                        @ ''Please suggest additional visualizations or checks that should be performed to ensure the dataset is ready for the ML task. ''
                        @ ''Provide complete, runnable Python code that defines a function named ''
                        @ squote ''additional_checks(df)''
                        @ '' which, when executed, produces these visualizations or checks. ''
                        @ ''Include necessary imports (e.g., matplotlib and seaborn) and ensure the code is self-contained.''
                  in case create openai_api_key ''gpt-3.5-turbo'' prompt 300 of
                       Inl e \<Rightarrow> Inr (''Error fetching additional checks: '' @ exn_str e)
                     | Inr code \<Rightarrow> Inr (strip code))))"

section \<open>Example inputs\<close>

text \<open>Rows 0 and 2 agree in every column, the missing cell included.\<close>

definition ex_dup :: dataframe where
  "ex_dup = [(''id'', Series Int64 [Num 1, Num 2, Num 1, Num 3]),
             (''value'', Series Float64 [NA, Num (5/2), NA, Num 1])]"


definition ex_complete :: dataframe where
  "ex_complete = [(''id'', Series Int64 [Num 1, Num 2]), (''value'', Series Float64 [Num 3, Num 4])]"

definition ex_two_gaps :: dataframe where
  "ex_two_gaps = [(''a'', Series Float64 [NA, Num 2]), (''b'', Series Float64 [Num 3, NA])]"

definition ex_all_missing :: dataframe where
  "ex_all_missing = [(''id'', Series Int64 [Num 1, Num 2]), (''empty'', Series Float64 [NA, NA])]"





definition ex_now :: datetime where
  "ex_now = \<lparr>year = 2024, month = 3, day = 9, hour = 7, minute = 5, second = 0\<rparr>"

definition ex_fs :: filesystem where
  "ex_fs = \<lparr>files = Map.empty, writable = (\<lambda>p. take 7 p = ''export/'')\<rparr>"

definition ex_log :: transformation_log where
  "ex_log = [impute_entry ''value'', drop_entry (4, 2) (3, 2)]"

text \<open>A library whose calls all succeed, and a session on a disk without the template
  directory, where everything under \<open>export\<close> can be written.\<close>

definition ex_lib :: library where
  "ex_lib = \<lparr>to_csv = (\<lambda>df. ''id,value''), describe_html = (\<lambda>df. Inr ''<table></table>''),
             render = (\<lambda>template title summary entries. Inr (title @ summary))\<rparr>"

definition ex_session :: session where
  "ex_session = \<lparr>s_frame = ex_dup, s_log = ex_log, s_disk = ex_fs, s_ui = []\<rparr>"

definition report_only :: buttons where
  "report_only = \<lparr>csv_clicked = False, script_clicked = False, report_clicked = True\<rparr>"

text \<open>
  Stand-in parsers for one CSV text with the columns \<open>id\<close>, \<open>Code\<close>, \<open>DATE_A\<close>,
  \<open>start_dAtE\<close> and \<open>data\<close>. A date column is parsed as date-time when the hint names
  it. The first parser gives text the dtype \<open>object\<close>, the second, as pandas 3 does, the
  dtype \<open>str\<close>.
\<close>

definition ex_csv :: string where
  "ex_csv = ''id,Code,DATE_A,start_dAtE,data'' @ [CHR 0x0A] @ ''1,x7,2024-01-01,2024-02-01,1''
            @ [CHR 0x0A] @ ''2,,2024-01-02,2024-02-02,2''"

definition ex_frame :: "dtype \<Rightarrow> string list option \<Rightarrow> dataframe" where
  "ex_frame text_dtype parse_dates =
     [(''id'', Series Int64 [Num 1, Num 2]),
      (''Code'', Series text_dtype [Str ''x7'', NA]),
      (''DATE_A'',
         if parse_dates = Some [''DATE_A'', ''start_dAtE'']
         then Series (Datetime64 Nanos None) [Time 19723, Time 19724]
         else Series text_dtype [Str ''2024-01-01'', Str ''2024-01-02'']),
      (''start_dAtE'',
         if parse_dates = Some [''DATE_A'', ''start_dAtE'']
         then Series (Datetime64 Nanos None) [Time 19754, Time 19755]
         else Series text_dtype [Str ''2024-02-01'', Str ''2024-02-02'']),
      (''data'', Series Int64 [Num 1, Num 2])]"

definition ex_parse :: parser where
  "ex_parse text parse_dates =
     (if text = ex_csv then Inr (ex_frame Object parse_dates)
      else Inl (ParserError ''No columns to parse from file''))"

definition ex_parse3 :: parser where
  "ex_parse3 text parse_dates =
     (if text = ex_csv then Inr (ex_frame StringDtype parse_dates)
      else Inl (ParserError ''No columns to parse from file''))"

definition ex_upload :: upload where
  "ex_upload = \<lparr>buffer = ex_csv, offset = 0\<rparr>"

text \<open>A service that answers every request.\<close>

definition ex_service :: completions where
  "ex_service api_key model prompt max_tokens = Inr ''Drop the empty rows.''"

section \<open>Properties of drop_duplicates\<close>

subsection \<open>The scan and the mask on lists\<close>

lemma length_duplicated_scan: "length (duplicated_scan seen xs) = length xs"
  by (induction xs arbitrary: seen) auto

lemma unmasked_map: "unmasked (map f xs) m = map f (unmasked xs m)"
  by (induction xs m rule: unmasked.induct) auto

lemma unmasked_all_False: "unmasked xs (replicate (length xs) False) = xs"
  by (induction xs) auto

lemma length_unmasked: "length xs = length m \<Longrightarrow> length (unmasked xs m) = length (filter Not m)"
  by (induction xs m rule: unmasked.induct) auto

lemma unmasked_nth_conv:
  "length xs = length m \<Longrightarrow> unmasked xs m = map (\<lambda>i. xs ! i) (unmasked [0..<length m] m)"
proof -
  assume len: "length xs = length m"
  have "unmasked xs m = unmasked (map (\<lambda>i. xs ! i) [0..<length xs]) m"
    by (simp add: map_nth)
  also have "\<dots> = map (\<lambda>i. xs ! i) (unmasked [0..<length xs] m)"
    by (rule unmasked_map)
  finally show ?thesis using len by simp
qed

lemma set_firsts: "set (unmasked xs (duplicated_scan seen xs)) = set xs - set seen"
  by (induction xs arbitrary: seen) auto

lemma distinct_firsts: "distinct (unmasked xs (duplicated_scan seen xs))"
  by (induction xs arbitrary: seen) (auto simp: set_firsts)

lemma subseq_unmasked: "subseq (unmasked xs m) xs"
  by (induction xs m rule: unmasked.induct) auto

lemma scan_firsts:
  "duplicated_scan seen (unmasked xs (duplicated_scan seen xs))
     = replicate (length (unmasked xs (duplicated_scan seen xs))) False"
  by (induction xs arbitrary: seen) auto

lemma duplicated_scan_nth:
  "i < length xs \<Longrightarrow> duplicated_scan seen xs ! i \<longleftrightarrow> xs ! i \<in> set seen \<union> set (take i xs)"
proof (induction xs arbitrary: seen i)
  case Nil
  then show ?case by simp
next
  case (Cons r rs)
  show ?case
  proof (cases i)
    case 0
    then show ?thesis by simp
  next
    case (Suc k)
    with Cons.prems have k: "k < length rs" by simp
    show ?thesis using Suc Cons.IH[OF k] by auto
  qed
qed

lemma unmasked_nths: "length xs = length m \<Longrightarrow> unmasked xs m = nths xs {i. \<not> m ! i}"
  by (induction xs m rule: unmasked.induct) (auto simp: nths_Cons)

lemma nths_cong_below:
  assumes "\<And>i. i < length xs \<Longrightarrow> i \<in> A \<longleftrightarrow> i \<in> B"
  shows "nths xs A = nths xs B"
proof -
  have "filter (\<lambda>p. snd p \<in> A) (zip xs [0..<length xs]) = filter (\<lambda>p. snd p \<in> B) (zip xs [0..<length xs])"
    by (rule filter_cong[OF refl]) (use assms in \<open>auto dest!: set_zip_rightD\<close>)
  then show ?thesis by (simp add: nths_def)
qed

lemma in_set_take_conv: "i \<le> length xs \<Longrightarrow> x \<in> set (take i xs) \<longleftrightarrow> (\<exists>j<i. xs ! j = x)"
  by (auto simp: in_set_conv_nth)

lemma firsts_nths:
  "unmasked xs (duplicated_scan [] xs) = nths xs {i. \<forall>j<i. xs ! j \<noteq> xs ! i}"
proof -
  have "unmasked xs (duplicated_scan [] xs) = nths xs {i. \<not> duplicated_scan [] xs ! i}"
    by (rule unmasked_nths) (simp add: length_duplicated_scan)
  also have "\<dots> = nths xs {i. \<forall>j<i. xs ! j \<noteq> xs ! i}"
    by (rule nths_cong_below) (auto simp: duplicated_scan_nth in_set_take_conv)
  finally show ?thesis .
qed

subsection \<open>The frame after the drop\<close>

lemma length_duplicated: "length (duplicated df) = nrows df"
  by (simp add: duplicated_def length_duplicated_scan rows_of_def)

lemma fst_drop_duplicates:
  "fst (drop_duplicates df tlog) = map (\<lambda>(n, s). (n, Series (dtype s) (unmasked (cells s) (duplicated df)))) df"
  by (simp add: drop_duplicates_def Let_def)

lemma snd_drop_duplicates:
  "snd (drop_duplicates df tlog) = tlog @ [drop_entry (shape df) (shape (fst (drop_duplicates df tlog)))]"
  by (simp add: drop_duplicates_def Let_def)

lemma columns_drop: "columns (fst (drop_duplicates df tlog)) = columns df"
  by (simp add: fst_drop_duplicates columns_def case_prod_unfold o_def)

lemma wf_frame_cells: "wf_frame df \<Longrightarrow> (n, s) \<in> set df \<Longrightarrow> length (cells s) = nrows df"
  by (auto simp: wf_frame_def list_all_iff)

lemma nrows_drop:
  assumes "wf_frame df"
  shows "nrows (fst (drop_duplicates df tlog)) = length (filter Not (duplicated df))"
proof (cases df)
  case Nil
  then show ?thesis
    by (simp add: fst_drop_duplicates nrows_def duplicated_def rows_of_def)
next
  case (Cons p ps)
  obtain n s where p: "p = (n, s)" by (cases p)
  have "length (cells s) = length (duplicated df)"
    using wf_frame_cells[OF assms, of n s] Cons p by (simp add: length_duplicated)
  then show ?thesis
    using Cons p by (simp add: fst_drop_duplicates nrows_def length_unmasked)
qed

lemma wf_frame_drop:
  assumes "wf_frame df"
  shows "wf_frame (fst (drop_duplicates df tlog))"
proof -
  have "distinct (columns (fst (drop_duplicates df tlog)))"
    using assms by (simp add: columns_drop wf_frame_def)
  moreover have "length (cells t) = nrows (fst (drop_duplicates df tlog))"
    if "(m, t) \<in> set (fst (drop_duplicates df tlog))" for m t
  proof -
    from that obtain s where s: "(m, s) \<in> set df" and t: "t = Series (dtype s) (unmasked (cells s) (duplicated df))"
      by (auto simp: fst_drop_duplicates)
    have "length (cells s) = length (duplicated df)"
      using wf_frame_cells[OF assms s] by (simp add: length_duplicated)
    then show ?thesis
      using t by (simp add: length_unmasked nrows_drop[OF assms])
  qed
  ultimately show ?thesis
    by (auto simp: wf_frame_def list_all_iff)
qed

lemma rows_of_drop:
  assumes "wf_frame df"
  shows "rows_of (fst (drop_duplicates df tlog)) = unmasked (rows_of df) (duplicated df)"
proof -
  let ?m = "duplicated df"
  let ?K = "unmasked [0..<nrows df] ?m"
  let ?df' = "fst (drop_duplicates df tlog)"
  have lenK: "length ?K = nrows ?df'"
    by (simp add: nrows_drop[OF assms] length_unmasked length_duplicated)
  have cells': "unmasked (cells s) ?m = map (\<lambda>i. cells s ! i) ?K" if "(n, s) \<in> set df" for n s
    using unmasked_nth_conv[of "cells s" ?m] wf_frame_cells[OF assms that]
    by (simp add: length_duplicated)
  have row': "row ?df' k = row df (?K ! k)" if "k < length ?K" for k
    using that by (auto simp: row_def fst_drop_duplicates cells')
  have "rows_of ?df' = map (\<lambda>k. row df (?K ! k)) [0..<length ?K]"
    unfolding rows_of_def lenK[symmetric] using row' by simp
  also have "\<dots> = map (row df) (map (\<lambda>k. ?K ! k) [0..<length ?K])"
    by simp
  also have "\<dots> = map (row df) ?K"
    by (simp only: map_nth)
  also have "\<dots> = unmasked (rows_of df) ?m"
    by (simp add: rows_of_def unmasked_map)
  finally show ?thesis .
qed

lemma duplicated_drop:
  assumes "wf_frame df"
  shows "duplicated (fst (drop_duplicates df tlog))
           = replicate (nrows (fst (drop_duplicates df tlog))) False"
proof -
  have "duplicated (fst (drop_duplicates df tlog))
          = replicate (length (rows_of (fst (drop_duplicates df tlog)))) False"
    unfolding duplicated_def[of "fst (drop_duplicates df tlog)"] rows_of_drop[OF assms]
    unfolding duplicated_def[of df] by (rule scan_firsts)
  then show ?thesis by (simp add: rows_of_def)
qed

lemma drop_frame_idem:
  assumes "wf_frame df"
  shows "fst (drop_duplicates (fst (drop_duplicates df tlog)) tlog') = fst (drop_duplicates df tlog)"
proof -
  let ?df' = "fst (drop_duplicates df tlog)"
  have wf': "wf_frame ?df'" by (rule wf_frame_drop[OF assms])
  have "(\<lambda>(n, s). (n, Series (dtype s) (unmasked (cells s) (duplicated ?df')))) p = p"
    if "p \<in> set ?df'" for p
  proof -
    obtain n s where p: "p = (n, s)" by (cases p)
    have "length (cells s) = nrows ?df'" using wf_frame_cells[OF wf'] that p by simp
    then show ?thesis
      using p unmasked_all_False[of "cells s"] by (simp add: duplicated_drop[OF assms])
  qed
  then have "map (\<lambda>(n, s). (n, Series (dtype s) (unmasked (cells s) (duplicated ?df')))) ?df' = ?df'"
    by (simp add: map_idI)
  then show ?thesis
    by (simp add: fst_drop_duplicates[of ?df'])
qed

lemma wf_ex_dup: "wf_frame ex_dup"
  by code_simp

text \<open>
  C5. Dropping duplicates twice gives the same frame as dropping them once: the second call
  leaves the data as the first call left it, and appends one more log entry, whose two
  shapes are both the shape after the first call.
\<close>

theorem drop_duplicates_idempotent:
  assumes "wf_frame df"
  shows "drop_duplicates (fst (drop_duplicates df tlog)) (snd (drop_duplicates df tlog))
           = (fst (drop_duplicates df tlog),
              snd (drop_duplicates df tlog)
                @ [drop_entry (shape (fst (drop_duplicates df tlog)))
                              (shape (fst (drop_duplicates df tlog)))])"
proof -
  let ?df' = "fst (drop_duplicates df tlog)"
  let ?log' = "snd (drop_duplicates df tlog)"
  have "fst (drop_duplicates ?df' ?log') = ?df'"
    by (rule drop_frame_idem[OF assms])
  moreover from this have "snd (drop_duplicates ?df' ?log') = ?log' @ [drop_entry (shape ?df') (shape ?df')]"
    by (simp add: snd_drop_duplicates[of ?df'])
  ultimately show ?thesis
    by (simp add: prod_eq_iff)
qed

theorem drop_duplicates_idempotent_witness:
  "wf_frame ex_dup \<and>
   drop_duplicates (fst (drop_duplicates ex_dup [])) (snd (drop_duplicates ex_dup []))
     = ([(''id'', Series Int64 [Num 1, Num 2, Num 3]),
         (''value'', Series Float64 [NA, Num (5/2), Num 1])],
        [''df.drop_duplicates(inplace=True)  # Dropped duplicates. Shape from (4, 2) to (3, 2)'',
         ''df.drop_duplicates(inplace=True)  # Dropped duplicates. Shape from (3, 2) to (3, 2)''])"
proof -
  have once: "drop_duplicates ex_dup []
      = ([(''id'', Series Int64 [Num 1, Num 2, Num 3]),
          (''value'', Series Float64 [NA, Num (5/2), Num 1])],
         [''df.drop_duplicates(inplace=True)  # Dropped duplicates. Shape from (4, 2) to (3, 2)''])"
    by code_simp
  have entry: "drop_entry (3, 2) (3, 2)
      = ''df.drop_duplicates(inplace=True)  # Dropped duplicates. Shape from (3, 2) to (3, 2)''"
    by code_simp
  have sh: "shape (fst (drop_duplicates ex_dup [])) = (3, 2)"
    by code_simp
  show ?thesis
    using drop_duplicates_idempotent[OF wf_ex_dup, of "[]"] wf_ex_dup
    unfolding sh entry by (simp add: once)
qed

text \<open>
  C6. The rows kept by drop_duplicates are exactly the rows of the original frame that no
  earlier row equals, in their original order: a subsequence of the original rows, free of
  repetitions, in which every original row still occurs. The column names stay, and one log
  entry is appended, holding the shape before and the shape after.
\<close>

theorem drop_duplicates_keeps_first:
  assumes "wf_frame df"
  shows "rows_of (fst (drop_duplicates df tlog))
           = nths (rows_of df) {i. \<forall>j<i. rows_of df ! j \<noteq> rows_of df ! i}
       \<and> subseq (rows_of (fst (drop_duplicates df tlog))) (rows_of df)
       \<and> distinct (rows_of (fst (drop_duplicates df tlog)))
       \<and> set (rows_of (fst (drop_duplicates df tlog))) = set (rows_of df)
       \<and> columns (fst (drop_duplicates df tlog)) = columns df
       \<and> snd (drop_duplicates df tlog)
           = tlog @ [''df.drop_duplicates(inplace=True)  # Dropped duplicates. Shape from ''
                     @ show_shape (nrows df, length df) @ '' to ''
                     @ show_shape (nrows (fst (drop_duplicates df tlog)), length df)]"
proof -
  let ?df' = "fst (drop_duplicates df tlog)"
  have rows: "rows_of ?df' = unmasked (rows_of df) (duplicated_scan [] (rows_of df))"
    using rows_of_drop[OF assms] by (simp add: duplicated_def)
  have "rows_of ?df' = nths (rows_of df) {i. \<forall>j<i. rows_of df ! j \<noteq> rows_of df ! i}"
    unfolding rows by (rule firsts_nths)
  moreover have "subseq (rows_of ?df') (rows_of df)"
    unfolding rows by (rule subseq_unmasked)
  moreover have "distinct (rows_of ?df')"
    unfolding rows by (rule distinct_firsts)
  moreover have "set (rows_of ?df') = set (rows_of df)"
    unfolding rows by (simp add: set_firsts)
  moreover have "columns ?df' = columns df"
    by (rule columns_drop)
  moreover have "length ?df' = length df"
    by (simp add: fst_drop_duplicates)
  then have "snd (drop_duplicates df tlog)
           = tlog @ [''df.drop_duplicates(inplace=True)  # Dropped duplicates. Shape from ''
                     @ show_shape (nrows df, length df) @ '' to ''
                     @ show_shape (nrows ?df', length df)]"
    by (simp add: snd_drop_duplicates drop_entry_def shape_def)
  ultimately show ?thesis by blast
qed

theorem drop_duplicates_keeps_first_witness:
  "wf_frame ex_dup
   \<and> rows_of ex_dup = [[Num 1, NA], [Num 2, Num (5/2)], [Num 1, NA], [Num 3, Num 1]]
   \<and> rows_of (fst (drop_duplicates ex_dup [])) = [[Num 1, NA], [Num 2, Num (5/2)], [Num 3, Num 1]]
   \<and> rows_of (fst (drop_duplicates ex_dup []))
       = nths (rows_of ex_dup) {i. \<forall>j<i. rows_of ex_dup ! j \<noteq> rows_of ex_dup ! i}
   \<and> subseq (rows_of (fst (drop_duplicates ex_dup []))) (rows_of ex_dup)
   \<and> snd (drop_duplicates ex_dup [])
       = [''df.drop_duplicates(inplace=True)  # Dropped duplicates. Shape from (4, 2) to (3, 2)'']"
proof -
  have r0: "rows_of ex_dup = [[Num 1, NA], [Num 2, Num (5/2)], [Num 1, NA], [Num 3, Num 1]]"
    by code_simp
  have r1: "rows_of (fst (drop_duplicates ex_dup [])) = [[Num 1, NA], [Num 2, Num (5/2)], [Num 3, Num 1]]"
    by code_simp
  have l1: "snd (drop_duplicates ex_dup [])
       = [''df.drop_duplicates(inplace=True)  # Dropped duplicates. Shape from (4, 2) to (3, 2)'']"
    by code_simp
  from drop_duplicates_keeps_first[OF wf_ex_dup, of "[]"]
  have "rows_of (fst (drop_duplicates ex_dup []))
       = nths (rows_of ex_dup) {i. \<forall>j<i. rows_of ex_dup ! j \<noteq> rows_of ex_dup ! i}"
    and "subseq (rows_of (fst (drop_duplicates ex_dup []))) (rows_of ex_dup)"
    by blast+
  with wf_ex_dup r0 r1 l1 show ?thesis by blast
qed

section \<open>Properties of the rounding\<close>









section \<open>Properties of impute_missing_values\<close>

lemma setitem_map:
  "col \<in> fst ` set df \<Longrightarrow> distinct (map fst df) \<Longrightarrow>
   setitem df col s = map (\<lambda>(n, t). if n = col then (n, s) else (n, t)) df"
proof (induction df)
  case Nil
  then show ?case by simp
next
  case (Cons p df)
  obtain n t where p: "p = (n, t)" by (cases p)
  show ?case
  proof (cases "n = col")
    case True
    with Cons.prems p have "col \<notin> fst ` set df" by auto
    then have "map (\<lambda>(n, t). if n = col then (n, s) else (n, t)) df = df"
      by (intro map_idI) (auto simp: image_iff)
    with True p show ?thesis by simp
  next
    case False
    with Cons p show ?thesis by auto
  qed
qed

lemma map_fst_setitem:
  "col \<in> fst ` set df \<Longrightarrow> map fst (setitem df col s) = map fst df"
  by (induction df) (auto simp: rev_image_eqI)

lemma getitem_setitem_other:
  "c \<noteq> col \<Longrightarrow> getitem (setitem df col s) c = getitem df c"
  by (induction df) (auto simp: getitem_def)

lemma getitem_Some_iff:
  "distinct (map fst df) \<Longrightarrow> getitem df n = Some s \<longleftrightarrow> (n, s) \<in> set df"
  by (simp add: getitem_def)

lemma impute_loop_copy:
  assumes "copy_on_write pd"
  shows "impute_loop pd cols df tlog =
          (df, tlog @ map impute_entry (filter (\<lambda>c. \<exists>s. getitem df c = Some s \<and> isnull_sum s > 0) cols))"
  using assms by (induction cols arbitrary: tlog) (auto split: option.splits)

lemma impute_loop_result:
  assumes "\<not> copy_on_write pd" "distinct (map fst df)" "distinct cols" "set cols \<subseteq> fst ` set df"
  shows "impute_loop pd cols df tlog =
          (map (\<lambda>(n, s). if n \<in> set cols \<and> isnull_sum s > 0 then (n, fillna (mean pd s) s) else (n, s)) df,
           tlog @ map impute_entry (filter (\<lambda>c. \<exists>s. getitem df c = Some s \<and> isnull_sum s > 0) cols))"
  using assms(2-)
proof (induction cols arbitrary: df tlog)
  case Nil
  have "map (\<lambda>(n, s). (n, s)) df = df" by (intro map_idI) auto
  then show ?case by (simp add: case_prod_unfold)
next
  case (Cons col cols)
  from Cons.prems obtain s where s: "getitem df col = Some s" and mem: "(col, s) \<in> set df"
    by (auto simp: getitem_def)
  have colin: "col \<in> fst ` set df" using mem by (auto simp: image_iff intro: bexI[of _ "(col, s)"])
  have notin: "col \<notin> set cols" and dcols: "distinct cols" and sub: "set cols \<subseteq> fst ` set df"
    using Cons.prems by auto
  have uniq: "t = s" if "(col, t) \<in> set df" for t
    using that mem Cons.prems(1) by (metis eq_key_imp_eq_value)
  show ?case
  proof (cases "isnull_sum s > 0")
    case False
    have "map (\<lambda>(n, s). if n \<in> set (col # cols) \<and> isnull_sum s > 0 then (n, fillna (mean pd s) s) else (n, s)) df
        = map (\<lambda>(n, s). if n \<in> set cols \<and> isnull_sum s > 0 then (n, fillna (mean pd s) s) else (n, s)) df"
    proof (rule map_cong[OF refl])
      fix p assume p: "p \<in> set df"
      obtain n t where nt: "p = (n, t)" by (cases p)
      have "n = col \<Longrightarrow> t = s" using uniq p nt by simp
      with False nt
      show "(case p of (n, s) \<Rightarrow> if n \<in> set (col # cols) \<and> isnull_sum s > 0 then (n, fillna (mean pd s) s) else (n, s))
          = (case p of (n, s) \<Rightarrow> if n \<in> set cols \<and> isnull_sum s > 0 then (n, fillna (mean pd s) s) else (n, s))"
        by auto
    qed
    with False s Cons.IH[OF Cons.prems(1) dcols sub, of tlog] show ?thesis by simp
  next
    case True
    let ?s' = "fillna (mean pd s) s"
    let ?df1 = "setitem df col ?s'"
    have df1: "?df1 = map (\<lambda>(n, t). if n = col then (n, ?s') else (n, t)) df"
      by (rule setitem_map[OF colin Cons.prems(1)])
    have names1: "map fst ?df1 = map fst df"
      by (rule map_fst_setitem[OF colin])
    have d1: "distinct (map fst ?df1)" using Cons.prems(1) names1 by simp
    have sub1: "set cols \<subseteq> fst ` set ?df1"
      using sub names1 by (metis set_map)
    have filt: "filter (\<lambda>c. \<exists>s. getitem ?df1 c = Some s \<and> isnull_sum s > 0) cols
              = filter (\<lambda>c. \<exists>s. getitem df c = Some s \<and> isnull_sum s > 0) cols"
    proof (rule filter_cong[OF refl])
      fix c assume "c \<in> set cols"
      with notin have "c \<noteq> col" by auto
      then show "(\<exists>s. getitem ?df1 c = Some s \<and> isnull_sum s > 0) = (\<exists>s. getitem df c = Some s \<and> isnull_sum s > 0)"
        by (simp add: getitem_setitem_other)
    qed
    have "map (\<lambda>(n, s). if n \<in> set cols \<and> isnull_sum s > 0 then (n, fillna (mean pd s) s) else (n, s)) ?df1
        = map (\<lambda>(n, s). if n \<in> set (col # cols) \<and> isnull_sum s > 0 then (n, fillna (mean pd s) s) else (n, s)) df"
      unfolding df1 map_map
    proof (rule map_cong[OF refl])
      fix p assume p: "p \<in> set df"
      obtain n t where nt: "p = (n, t)" by (cases p)
      have "n = col \<Longrightarrow> t = s" using uniq p nt by simp
      with True nt notin
      show "((\<lambda>(n, s). if n \<in> set cols \<and> isnull_sum s > 0 then (n, fillna (mean pd s) s) else (n, s)) \<circ>
             (\<lambda>(n, t). if n = col then (n, ?s') else (n, t))) p
          = (case p of (n, s) \<Rightarrow> if n \<in> set (col # cols) \<and> isnull_sum s > 0 then (n, fillna (mean pd s) s) else (n, s))"
        by auto
    qed
    with True s filt assms(1) Cons.IH[OF d1 dcols sub1, of "tlog @ [impute_entry col]"]
    show ?thesis by simp
  qed
qed

lemma isnull_sum_pos: "isnull_sum s > 0 \<longleftrightarrow> NA \<in> set (cells s)"
  by (simp add: isnull_sum_def filter_empty_conv)

lemma distinct_select_number: "distinct (map fst df) \<Longrightarrow> distinct (select_dtypes_number df)"
  by (simp add: select_dtypes_number_def distinct_map_filter)

lemma select_number_subset: "set (select_dtypes_number df) \<subseteq> fst ` set df"
  by (auto simp: select_dtypes_number_def)

lemma in_select_number:
  "distinct (map fst df) \<Longrightarrow> (n, s) \<in> set df \<Longrightarrow>
   n \<in> set (select_dtypes_number df) \<longleftrightarrow> is_number (dtype s)"
  by (auto simp: select_dtypes_number_def image_iff dest: eq_key_imp_eq_value)

lemma impute_frame:
  assumes "distinct (columns df)" and "\<not> copy_on_write pd"
  shows "fst (impute_missing_values pd df tlog)
       = map (\<lambda>(n, s). (n, if is_number (dtype s) \<and> NA \<in> set (cells s) then fillna (mean pd s) s else s)) df"
proof -
  have d: "distinct (map fst df)" using assms by (simp add: columns_def)
  have "fst (impute_missing_values pd df tlog)
      = map (\<lambda>(n, s). if n \<in> set (select_dtypes_number df) \<and> isnull_sum s > 0
                        then (n, fillna (mean pd s) s) else (n, s)) df"
    unfolding impute_missing_values_def
    by (simp add: impute_loop_result[OF assms(2) d distinct_select_number[OF d] select_number_subset])
  also have "\<dots> = map (\<lambda>(n, s). (n, if is_number (dtype s) \<and> NA \<in> set (cells s) then fillna (mean pd s) s else s)) df"
    by (rule map_cong[OF refl]) (auto simp: in_select_number[OF d] isnull_sum_pos)
  finally show ?thesis .
qed

lemma impute_frame_copy:
  "copy_on_write pd \<Longrightarrow> fst (impute_missing_values pd df tlog) = df"
  by (simp add: impute_missing_values_def impute_loop_copy)

lemma impute_log:
  assumes "distinct (columns df)"
  shows "snd (impute_missing_values pd df tlog)
       = tlog @ map impute_entry (map fst (filter (\<lambda>(n, s). is_number (dtype s) \<and> NA \<in> set (cells s)) df))"
proof -
  have d: "distinct (map fst df)" using assms by (simp add: columns_def)
  have "snd (impute_missing_values pd df tlog)
      = tlog @ map impute_entry (filter (\<lambda>c. \<exists>s. getitem df c = Some s \<and> isnull_sum s > 0) (select_dtypes_number df))"
  proof (cases "copy_on_write pd")
    case True
    then show ?thesis
      by (simp add: impute_missing_values_def impute_loop_copy)
  next
    case False
    then show ?thesis
      unfolding impute_missing_values_def
      by (simp add: impute_loop_result[OF False d distinct_select_number[OF d] select_number_subset])
  qed
  moreover have "filter (\<lambda>c. \<exists>s. getitem df c = Some s \<and> isnull_sum s > 0) (select_dtypes_number df)
      = map fst (filter (\<lambda>(n, s). is_number (dtype s) \<and> NA \<in> set (cells s)) df)"
  proof -
    have "filter (\<lambda>c. \<exists>s. getitem df c = Some s \<and> isnull_sum s > 0) (select_dtypes_number df)
        = map fst (filter (\<lambda>p. \<exists>s. getitem df (fst p) = Some s \<and> isnull_sum s > 0)
                     (filter (\<lambda>(n, s). is_number (dtype s)) df))"
      by (simp add: select_dtypes_number_def filter_map o_def)
    also have "filter (\<lambda>p. \<exists>s. getitem df (fst p) = Some s \<and> isnull_sum s > 0)
                     (filter (\<lambda>(n, s). is_number (dtype s)) df)
             = filter (\<lambda>(n, s). is_number (dtype s) \<and> NA \<in> set (cells s)) df"
      unfolding filter_filter
      using d by (intro filter_cong[OF refl]) (auto simp: getitem_Some_iff[OF d] isnull_sum_pos dest: eq_key_imp_eq_value)
    finally show ?thesis .
  qed
  ultimately show ?thesis by simp
qed

lemma columns_impute:
  "distinct (columns df) \<Longrightarrow> columns (fst (impute_missing_values pd df tlog)) = columns df"
  by (cases "copy_on_write pd")
     (simp_all add: impute_frame impute_frame_copy columns_def case_prod_unfold o_def)

lemma mean_all_missing: "\<forall>c\<in>set (cells s). c = NA \<Longrightarrow> mean pd s = NA"
  by (simp add: mean_def notnull_def filter_empty_conv Let_def)

lemma fillna_NA: "fillna NA s = s"
  by (cases s) (simp add: fillna_def map_idI)








text \<open>
  C2 (amended). drop_duplicates appends exactly one entry at the end of the log, whatever the
  data; impute_missing_values appends, at the end of the log and in column order, one entry
  for each numeric column that has a missing cell, which may be none or several. This holds
  under every pandas: the number and the place of the entries do not depend on whether the
  fill reaches the frame nor on the value of the mean.
\<close>

theorem cleaning_log_growth:
  assumes "distinct (columns df)"
  shows "snd (drop_duplicates df tlog)
           = tlog @ [drop_entry (shape df) (shape (fst (drop_duplicates df tlog)))]
       \<and> length (snd (drop_duplicates df tlog)) = length tlog + 1
       \<and> snd (impute_missing_values pd df tlog)
           = tlog @ map impute_entry
                      (map fst (filter (\<lambda>(n, s). is_number (dtype s) \<and> NA \<in> set (cells s)) df))
       \<and> length (snd (impute_missing_values pd df tlog))
           = length tlog + length (filter (\<lambda>(n, s). is_number (dtype s) \<and> NA \<in> set (cells s)) df)"
  by (simp add: snd_drop_duplicates impute_log[OF assms])

lemma distinct_ex_two_gaps: "distinct (columns ex_two_gaps)"
  by code_simp

theorem cleaning_log_growth_witness:
  "distinct (columns ex_two_gaps)
   \<and> length (snd (drop_duplicates ex_two_gaps [''earlier''])) = 2
   \<and> snd (impute_missing_values pandas2 ex_two_gaps [''earlier''])
       = [''earlier'', impute_entry ''a'', impute_entry ''b'']
   \<and> length (snd (impute_missing_values pandas2 ex_two_gaps [''earlier''])) = 3"
proof -
  have f: "filter (\<lambda>(n, s). is_number (dtype s) \<and> NA \<in> set (cells s)) ex_two_gaps = ex_two_gaps"
    by (simp add: ex_two_gaps_def is_number_def)
  have n: "map fst ex_two_gaps = [''a'', ''b'']"
    by (simp add: ex_two_gaps_def)
  show ?thesis
    using cleaning_log_growth[OF distinct_ex_two_gaps, where tlog = "[''earlier'']" and pd = pandas2] distinct_ex_two_gaps
    unfolding f n by simp
qed

text \<open>
  C2 as stated fails: on a frame without missing cells a call of impute_missing_values
  appends nothing, and on a frame with two numeric columns with gaps it appends two entries.
\<close>

theorem impute_one_entry_counterexample:
  "snd (impute_missing_values pandas2 ex_complete []) = []
   \<and> length (snd (impute_missing_values pandas2 ex_complete [])) \<noteq> length ([] :: string list) + 1
   \<and> length (snd (impute_missing_values pandas2 ex_two_gaps [])) = 2"
  by code_simp

lemma impute_keeps_all_missing:
  assumes d: "distinct (columns df)" and mem: "(n, s) \<in> set df" and num: "is_number (dtype s)"
    and ne: "cells s \<noteq> []" and all: "\<forall>c\<in>set (cells s). c = NA"
  shows "(n, s) \<in> set (fst (impute_missing_values pd df tlog))
       \<and> distinct (columns (fst (impute_missing_values pd df tlog)))
       \<and> (\<exists>es. snd (impute_missing_values pd df tlog) = tlog @ es \<and> impute_entry n \<in> set es)"
proof -
  have na: "NA \<in> set (cells s)"
    using ne all by (cases "cells s") auto
  have same: "fillna (mean pd s) s = s"
    by (simp add: mean_all_missing[OF all] fillna_NA)
  have "(n, s) \<in> set (fst (impute_missing_values pd df tlog))"
  proof (cases "copy_on_write pd")
    case True
    then show ?thesis using mem by (simp add: impute_frame_copy)
  next
    case False
    show ?thesis
      using same mem num na unfolding impute_frame[OF d False] by (force simp: image_iff)
  qed
  moreover have "distinct (columns (fst (impute_missing_values pd df tlog)))"
    using d by (simp add: columns_impute)
  moreover have "(n, s) \<in> set (filter (\<lambda>(n, s). is_number (dtype s) \<and> NA \<in> set (cells s)) df)"
    using mem num na by simp
  then have "impute_entry n \<in> set (map impute_entry
      (map fst (filter (\<lambda>(n, s). is_number (dtype s) \<and> NA \<in> set (cells s)) df)))"
    by (force simp: image_iff)
  then have "\<exists>es. snd (impute_missing_values pd df tlog) = tlog @ es \<and> impute_entry n \<in> set es"
    unfolding impute_log[OF d] by blast
  ultimately show ?thesis by blast
qed

text \<open>
  C10. A numeric column whose cells are all missing stays as it is under
  impute_missing_values, the call still appends an entry for that column, and so does every
  later call: after \<open>k\<close> calls the log has grown by at least \<open>k\<close> entries. This holds
  under every pandas.
\<close>

theorem impute_all_missing_column:
  assumes "distinct (columns df)" and "(n, s) \<in> set df" and "is_number (dtype s)"
    and "cells s \<noteq> []" and "\<forall>c\<in>set (cells s). c = NA"
  shows "(n, s) \<in> set (fst (impute_missing_values pd df tlog))
       \<and> (\<exists>es. snd (impute_missing_values pd df tlog) = tlog @ es \<and> impute_entry n \<in> set es)
       \<and> (\<forall>k. (n, s) \<in> set (fst (impute_repeat pd k df tlog))
              \<and> (\<exists>es. snd (impute_repeat pd (Suc k) df tlog) = snd (impute_repeat pd k df tlog) @ es
                       \<and> impute_entry n \<in> set es)
              \<and> length tlog + k \<le> length (snd (impute_repeat pd k df tlog)))"
proof -
  have inv: "(n, s) \<in> set (fst (impute_repeat pd k df tlog))
           \<and> distinct (columns (fst (impute_repeat pd k df tlog)))
           \<and> length tlog + k \<le> length (snd (impute_repeat pd k df tlog))" for k
  proof (induction k)
    case 0
    then show ?case using assms by simp
  next
    case (Suc k)
    obtain df' tlog' where st: "impute_repeat pd k df tlog = (df', tlog')"
      by (cases "impute_repeat pd k df tlog")
    from Suc st have d': "distinct (columns df')" and m': "(n, s) \<in> set df'"
      and l': "length tlog + k \<le> length tlog'" by simp_all
    from impute_keeps_all_missing[OF d' m' assms(3,4,5), where tlog = tlog' and pd = pd]
    obtain es where "(n, s) \<in> set (fst (impute_missing_values pd df' tlog'))"
      and "distinct (columns (fst (impute_missing_values pd df' tlog')))"
      and "snd (impute_missing_values pd df' tlog') = tlog' @ es" and "impute_entry n \<in> set es"
      by blast
    moreover from this have "length es \<ge> 1"
      by (cases es) auto
    ultimately show ?case using st l' by simp
  qed
  have step: "\<exists>es. snd (impute_repeat pd (Suc k) df tlog) = snd (impute_repeat pd k df tlog) @ es
                    \<and> impute_entry n \<in> set es" for k
  proof -
    obtain df' tlog' where st: "impute_repeat pd k df tlog = (df', tlog')"
      by (cases "impute_repeat pd k df tlog")
    from inv[of k] st have d': "distinct (columns df')" and m': "(n, s) \<in> set df'" by simp_all
    from impute_keeps_all_missing[OF d' m' assms(3,4,5), where tlog = tlog' and pd = pd] st
    show ?thesis by simp
  qed
  from impute_keeps_all_missing[OF assms, where tlog = tlog and pd = pd] inv step show ?thesis by blast
qed

lemma distinct_ex_all_missing: "distinct (columns ex_all_missing)"
  by code_simp

theorem impute_all_missing_column_witness:
  "distinct (columns ex_all_missing)
   \<and> (''empty'', Series Float64 [NA, NA]) \<in> set ex_all_missing
   \<and> is_number (dtype (Series Float64 [NA, NA]))
   \<and> cells (Series Float64 [NA, NA]) \<noteq> []
   \<and> list_all (\<lambda>c. c = NA) (cells (Series Float64 [NA, NA]))
   \<and> (''empty'', Series Float64 [NA, NA]) \<in> set (fst (impute_missing_values pandas2 ex_all_missing []))
   \<and> (''empty'', Series Float64 [NA, NA]) \<in> set (fst (impute_repeat pandas2 3 ex_all_missing []))
   \<and> 3 \<le> length (snd (impute_repeat pandas2 3 ex_all_missing []))
   \<and> snd (impute_repeat pandas2 3 ex_all_missing [])
       = [impute_entry ''empty'', impute_entry ''empty'', impute_entry ''empty'']"
proof -
  have h: "(''empty'', Series Float64 [NA, NA]) \<in> set ex_all_missing"
      "is_number (dtype (Series Float64 [NA, NA]))"
      "cells (Series Float64 [NA, NA]) \<noteq> []"
      "\<forall>c\<in>set (cells (Series Float64 [NA, NA])). c = NA"
    by (simp_all add: ex_all_missing_def is_number_def)
  have run: "snd (impute_repeat pandas2 3 ex_all_missing [])
       = [impute_entry ''empty'', impute_entry ''empty'', impute_entry ''empty'']"
    by code_simp
  from impute_all_missing_column[OF distinct_ex_all_missing h, where tlog = "[]" and pd = pandas2]
  have "(''empty'', Series Float64 [NA, NA]) \<in> set (fst (impute_missing_values pandas2 ex_all_missing []))"
    and "\<forall>k. (''empty'', Series Float64 [NA, NA]) \<in> set (fst (impute_repeat pandas2 k ex_all_missing []))
          \<and> length ([] :: string list) + k \<le> length (snd (impute_repeat pandas2 k ex_all_missing []))"
    by blast+
  then have "(''empty'', Series Float64 [NA, NA]) \<in> set (fst (impute_missing_values pandas2 ex_all_missing []))"
    and "(''empty'', Series Float64 [NA, NA]) \<in> set (fst (impute_repeat pandas2 3 ex_all_missing []))"
    and "3 \<le> length (snd (impute_repeat pandas2 3 ex_all_missing []))"
    by (blast, blast, force)
  moreover have "list_all (\<lambda>c. c = NA) (cells (Series Float64 [NA, NA]))"
    using h(4) unfolding list_all_iff .
  ultimately show ?thesis using distinct_ex_all_missing h(1,2,3) run by blast
qed

section \<open>Properties of check_ml_readiness\<close>
















section \<open>Properties of the script export\<close>

lemma append_steps_eq: "append_steps tlog ls = ls @ map (\<lambda>step. ''    '' @ step) tlog"
  by (induction tlog arbitrary: ls) auto

lemma split_lines_nonempty: "split_lines s \<noteq> []"
  by (induction s) (auto split: list.splits)

lemma split_lines_plain: "CHR 0x0A \<notin> set l \<Longrightarrow> split_lines (l @ CHR 0x0A # s) = l # split_lines s"
  by (induction l) (auto split: list.splits)

lemma split_lines_single: "CHR 0x0A \<notin> set l \<Longrightarrow> split_lines l = [l]"
  by (induction l) (auto split: list.splits)

lemma split_join_lines:
  "ls \<noteq> [] \<Longrightarrow> \<forall>l\<in>set ls. CHR 0x0A \<notin> set l \<Longrightarrow> split_lines (join_lines ls) = ls"
proof (induction ls rule: join_lines.induct)
  case 1
  then show ?case by simp
next
  case (2 l)
  then show ?case by (simp add: split_lines_single)
next
  case (3 l k ks)
  then show ?case by (simp add: split_lines_plain)
qed


lemma digit_char_not_nl: "d < 10 \<Longrightarrow> digit_char d \<noteq> CHR 0x0A"
proof -
  assume "d < 10"
  then have "d \<in> {0, 1, 2, 3, 4, 5, 6, 7, 8, 9}" by auto
  then show ?thesis by (auto simp: digit_char_def)
qed

lemma show_nat_no_nl: "CHR 0x0A \<notin> set (show_nat n)"
proof (induction n rule: show_nat.induct)
  case (1 n)
  show ?case
  proof (cases "n < 10")
    case True
    then show ?thesis using digit_char_not_nl[of n] by (subst show_nat.simps) auto
  next
    case False
    then have "CHR 0x0A \<notin> set (show_nat (n div 10))" by (rule 1)
    moreover have "digit_char (n mod 10) \<noteq> CHR 0x0A" by (rule digit_char_not_nl) simp
    ultimately show ?thesis using False by (subst show_nat.simps) auto
  qed
qed

lemma zero_pad_no_nl: "CHR 0x0A \<notin> set (zero_pad w n)"
  by (auto simp: zero_pad_def show_nat_no_nl)

lemma strftime_long_no_nl: "CHR 0x0A \<notin> set (strftime_long t)"
  by (simp add: strftime_long_def zero_pad_no_nl)

lemma script_lines_eq:
  "script_lines now tlog =
     [''# Transformation Script'', ''# Generated on: '' @ strftime_long now, '''',
      ''import pandas as pd'', '''', ''def transform_data(df):'',
      ''    # Transformation steps applied'']
     @ map (\<lambda>step. ''    '' @ step) tlog @ [''    return df'']"
  by (simp add: script_lines_def append_steps_eq)

text \<open>
  C8. For every log, the exported script is the seven header lines, then every log entry in
  log order behind four spaces, then the line that returns the frame; the lines are joined
  by newlines and written to the fixed path when the path can be written. No entry is
  inspected or rejected. When no entry holds a newline, splitting the script at newlines
  gives these lines back. On an empty log the function body is the comment and the return.
\<close>

theorem export_transformation_script_content:
  "export_transformation_script fs now tlog =
     (if writable fs ''export/transformation_script.py''
      then Inr (''export/transformation_script.py'',
                fs\<lparr>files := (files fs)(''export/transformation_script.py''
                                        \<mapsto> join_lines (script_lines now tlog))\<rparr>)
      else Inl (OSError ''export/transformation_script.py''))
   \<and> script_lines now tlog =
       [''# Transformation Script'', ''# Generated on: '' @ strftime_long now, '''',
        ''import pandas as pd'', '''', ''def transform_data(df):'',
        ''    # Transformation steps applied'']
       @ map (\<lambda>step. ''    '' @ step) tlog @ [''    return df'']
   \<and> (\<forall>i<length tlog. script_lines now tlog ! (7 + i) = ''    '' @ tlog ! i)
   \<and> script_lines now tlog ! 5 = ''def transform_data(df):''
   \<and> last (script_lines now tlog) = ''    return df''
   \<and> ((\<forall>step\<in>set tlog. CHR 0x0A \<notin> set step) \<longrightarrow>
        split_lines (join_lines (script_lines now tlog)) = script_lines now tlog)
   \<and> join_lines (script_lines now []) =
        ''# Transformation Script'' @ [CHR 0x0A] @ ''# Generated on: '' @ strftime_long now
        @ [CHR 0x0A, CHR 0x0A] @ ''import pandas as pd'' @ [CHR 0x0A, CHR 0x0A]
        @ ''def transform_data(df):'' @ [CHR 0x0A] @ ''    # Transformation steps applied''
        @ [CHR 0x0A] @ ''    return df''"
proof -
  have a: "export_transformation_script fs now tlog =
     (if writable fs ''export/transformation_script.py''
      then Inr (''export/transformation_script.py'',
                fs\<lparr>files := (files fs)(''export/transformation_script.py''
                                        \<mapsto> join_lines (script_lines now tlog))\<rparr>)
      else Inl (OSError ''export/transformation_script.py''))"
    by (simp add: export_transformation_script_def write_file_def path_join_def Let_def)
  have c: "\<forall>i<length tlog. script_lines now tlog ! (7 + i) = ''    '' @ tlog ! i"
    by (simp add: script_lines_eq nth_append)
  have d: "script_lines now tlog ! 5 = ''def transform_data(df):''"
    by (simp add: script_lines_eq)
  have e: "last (script_lines now tlog) = ''    return df''"
    by (simp add: script_lines_eq)
  have f: "split_lines (join_lines (script_lines now tlog)) = script_lines now tlog"
    if "\<forall>step\<in>set tlog. CHR 0x0A \<notin> set step"
  proof (rule split_join_lines)
    show "script_lines now tlog \<noteq> []" by (simp add: script_lines_eq)
    show "\<forall>l\<in>set (script_lines now tlog). CHR 0x0A \<notin> set l"
      using that by (auto simp: script_lines_eq strftime_long_no_nl)
  qed
  have g: "join_lines (script_lines now []) =
        ''# Transformation Script'' @ [CHR 0x0A] @ ''# Generated on: '' @ strftime_long now
        @ [CHR 0x0A, CHR 0x0A] @ ''import pandas as pd'' @ [CHR 0x0A, CHR 0x0A]
        @ ''def transform_data(df):'' @ [CHR 0x0A] @ ''    # Transformation steps applied''
        @ [CHR 0x0A] @ ''    return df''"
    by (simp add: script_lines_eq)
  from a script_lines_eq[of now tlog] c d e f g show ?thesis by blast
qed

theorem export_transformation_script_content_witness:
  "list_all (\<lambda>step. CHR 0x0A \<notin> set step) ex_log
   \<and> split_lines (join_lines (script_lines ex_now ex_log)) = script_lines ex_now ex_log
   \<and> script_lines ex_now ex_log ! (7 + 1) = ''    '' @ ex_log ! 1
   \<and> script_lines ex_now ex_log =
       [''# Transformation Script'', ''# Generated on: 2024-03-09 07:05:00'', '''',
        ''import pandas as pd'', '''', ''def transform_data(df):'',
        ''    # Transformation steps applied'',
        ''    df['value'].fillna(df['value'].mean(), inplace=True)  # Imputed missing values in 'value'' @ [CHR 0x27],
        ''    df.drop_duplicates(inplace=True)  # Dropped duplicates. Shape from (4, 2) to (3, 2)'',
        ''    return df'']"
proof -
  have nl: "\<forall>step\<in>set ex_log. CHR 0x0A \<notin> set step"
    by code_simp
  have len: "1 < length ex_log"
    by (simp add: ex_log_def)
  have ls: "script_lines ex_now ex_log =
       [''# Transformation Script'', ''# Generated on: 2024-03-09 07:05:00'', '''',
        ''import pandas as pd'', '''', ''def transform_data(df):'',
        ''    # Transformation steps applied'',
        ''    df['value'].fillna(df['value'].mean(), inplace=True)  # Imputed missing values in 'value'' @ [CHR 0x27],
        ''    df.drop_duplicates(inplace=True)  # Dropped duplicates. Shape from (4, 2) to (3, 2)'',
        ''    return df'']"
    by code_simp
  from export_transformation_script_content[of ex_fs ex_now ex_log]
  have "(\<forall>step\<in>set ex_log. CHR 0x0A \<notin> set step) \<longrightarrow>
        split_lines (join_lines (script_lines ex_now ex_log)) = script_lines ex_now ex_log"
    and "\<forall>i<length ex_log. script_lines ex_now ex_log ! (7 + i) = ''    '' @ ex_log ! i"
    by blast+
  with nl len have "split_lines (join_lines (script_lines ex_now ex_log)) = script_lines ex_now ex_log"
    and "script_lines ex_now ex_log ! (7 + 1) = ''    '' @ ex_log ! 1"
    by blast+
  moreover have "list_all (\<lambda>step. CHR 0x0A \<notin> set step) ex_log"
    using nl unfolding list_all_iff .
  ultimately show ?thesis using ls by blast
qed

section \<open>Properties of the exports\<close>

lemma on_export_csv_frame:
  "on_export_csv lib now st = Inr st' \<Longrightarrow> s_frame st' = s_frame st \<and> s_log st' = s_log st"
  by (auto simp: on_export_csv_def Let_def split: sum.splits)

lemma on_export_script_frame:
  "on_export_script now st = Inr st' \<Longrightarrow> s_frame st' = s_frame st \<and> s_log st' = s_log st"
  by (auto simp: on_export_script_def split: sum.splits prod.splits)

lemma on_export_report_frame:
  "on_export_report lib now st = Inr st' \<Longrightarrow> s_frame st' = s_frame st \<and> s_log st' = s_log st"
  by (auto simp: on_export_report_def split: sum.splits prod.splits)

lemma export_options_frame:
  "s_frame (fst (export_options lib now b st)) = s_frame st
   \<and> s_log (fst (export_options lib now b st)) = s_log st"
  unfolding export_options_def
  by (auto split: sum.splits dest!: on_export_csv_frame on_export_script_frame on_export_report_frame)

lemma main_exports_frame:
  "s_frame (main_exports lib now b st) = s_frame st \<and> s_log (main_exports lib now b st) = s_log st"
  using export_options_frame[of lib now b st]
  by (auto simp: main_exports_def split: prod.splits option.splits)

lemma main_exports_surfaced:
  "snd (export_options lib now b st) = Some e \<Longrightarrow>
   s_ui (main_exports lib now b st)
     = s_ui (fst (export_options lib now b st)) @ [Error (''Error reading the CSV file: '' @ exn_str e)]"
  by (auto simp: main_exports_def split: prod.splits option.splits)

lemma on_export_csv_fails:
  "(\<exists>e. on_export_csv lib now st = Inl e)
     \<longleftrightarrow> \<not> writable (s_disk st) (''export/cleaned_data_'' @ strftime_compact now @ ''.csv'')"
  by (auto simp: on_export_csv_def write_file_def path_join_def Let_def)

lemma on_export_script_fails:
  "(\<exists>e. on_export_script now st = Inl e)
     \<longleftrightarrow> \<not> writable (s_disk st) ''export/transformation_script.py''"
  by (auto simp: on_export_script_def export_transformation_script_def write_file_def path_join_def Let_def)

lemma on_export_report_fails:
  "(\<exists>e. on_export_report lib now st = Inl e)
     \<longleftrightarrow> (\<exists>e. generate_eda_report lib (s_disk st) (s_frame st) (s_log st) = Inl e)
          \<or> \<not> writable (s_disk st) (''export/eda_report_'' @ strftime_compact now @ ''.html'')"
  by (auto simp: on_export_report_def export_eda_report_def write_file_def path_join_def Let_def
           split: sum.splits)

lemma generate_eda_report_fails:
  "(\<exists>e. generate_eda_report lib fs df entries = Inl e)
     \<longleftrightarrow> (case files fs ''templates/report_template.html'' of
            None \<Rightarrow> True
          | Some template \<Rightarrow>
              (case describe_html lib df of
                 Inl e \<Rightarrow> True
               | Inr summary_html \<Rightarrow> \<exists>e. render lib template ''EDA Report'' summary_html entries = Inl e))"
  by (auto simp: generate_eda_report_def path_join_def split: option.splits sum.splits)


text \<open>
  C9 (amended). Whatever buttons are pressed and whatever the library calls and the disk
  do, the export section of main leaves the frame and the log as they were. The CSV export
  and the script export fail exactly when their file cannot be written; the report export
  fails exactly when the template is not found, the statistics table or the rendering
  raises, or its file cannot be written. An exception of an export ends the section with
  an error notice that carries the exception text; without an exception the section ends in
  the state the exports reached.
\<close>

theorem exports_keep_frame_and_log:
  "s_frame (main_exports lib now b st) = s_frame st
   \<and> s_log (main_exports lib now b st) = s_log st
   \<and> ((\<exists>e. on_export_csv lib now st = Inl e)
        \<longleftrightarrow> \<not> writable (s_disk st) (''export/cleaned_data_'' @ strftime_compact now @ ''.csv''))
   \<and> ((\<exists>e. on_export_script now st = Inl e)
        \<longleftrightarrow> \<not> writable (s_disk st) ''export/transformation_script.py'')
   \<and> ((\<exists>e. on_export_report lib now st = Inl e)
        \<longleftrightarrow> files (s_disk st) ''templates/report_template.html'' = None
           \<or> (\<exists>e. describe_html lib (s_frame st) = Inl e)
           \<or> (\<exists>template summary_html e.
                 files (s_disk st) ''templates/report_template.html'' = Some template
                 \<and> describe_html lib (s_frame st) = Inr summary_html
                 \<and> render lib template ''EDA Report'' summary_html (s_log st) = Inl e)
           \<or> \<not> writable (s_disk st) (''export/eda_report_'' @ strftime_compact now @ ''.html''))
   \<and> (\<forall>e. snd (export_options lib now b st) = Some e \<longrightarrow>
          s_ui (main_exports lib now b st)
            = s_ui (fst (export_options lib now b st))
              @ [Error (''Error reading the CSV file: '' @ exn_str e)])
   \<and> (snd (export_options lib now b st) = None \<longrightarrow>
          main_exports lib now b st = fst (export_options lib now b st))"
proof -
  have rep: "(\<exists>e. on_export_report lib now st = Inl e)
        \<longleftrightarrow> files (s_disk st) ''templates/report_template.html'' = None
           \<or> (\<exists>e. describe_html lib (s_frame st) = Inl e)
           \<or> (\<exists>template summary_html e.
                 files (s_disk st) ''templates/report_template.html'' = Some template
                 \<and> describe_html lib (s_frame st) = Inr summary_html
                 \<and> render lib template ''EDA Report'' summary_html (s_log st) = Inl e)
           \<or> \<not> writable (s_disk st) (''export/eda_report_'' @ strftime_compact now @ ''.html'')"
    unfolding on_export_report_fails generate_eda_report_fails
    by (auto split: option.splits sum.splits)
  have none: "main_exports lib now b st = fst (export_options lib now b st)"
    if "snd (export_options lib now b st) = None"
    using that by (auto simp: main_exports_def split: prod.splits option.splits)
  show ?thesis
    using main_exports_frame[of lib now b st] on_export_csv_fails[of lib now st]
      on_export_script_fails[of now st] rep main_exports_surfaced[of lib now b st] none
    by blast
qed

theorem exports_keep_frame_and_log_witness:
  "snd (export_options ex_lib ex_now report_only ex_session)
     = Some (TemplateNotFound ''report_template.html'')
   \<and> s_ui (main_exports ex_lib ex_now report_only ex_session)
       = [Error ''Error reading the CSV file: report_template.html'']
   \<and> s_frame (main_exports ex_lib ex_now report_only ex_session) = ex_dup
   \<and> s_log (main_exports ex_lib ex_now report_only ex_session) = ex_log"
proof -
  have failed: "snd (export_options ex_lib ex_now report_only ex_session)
     = Some (TemplateNotFound ''report_template.html'')"
    by (simp add: export_options_def report_only_def on_export_report_def export_eda_report_def
        generate_eda_report_def ex_session_def ex_fs_def path_join_def)
  have before: "s_ui (fst (export_options ex_lib ex_now report_only ex_session)) = []"
    by (simp add: export_options_def report_only_def on_export_report_def export_eda_report_def
        generate_eda_report_def ex_session_def ex_fs_def path_join_def)
  from exports_keep_frame_and_log[of ex_lib ex_now report_only ex_session]
  have fr: "s_frame (main_exports ex_lib ex_now report_only ex_session) = s_frame ex_session"
    and lg: "s_log (main_exports ex_lib ex_now report_only ex_session) = s_log ex_session"
    and "\<forall>e. snd (export_options ex_lib ex_now report_only ex_session) = Some e \<longrightarrow>
          s_ui (main_exports ex_lib ex_now report_only ex_session)
            = s_ui (fst (export_options ex_lib ex_now report_only ex_session))
              @ [Error (''Error reading the CSV file: '' @ exn_str e)]"
    by blast+
  with failed have "s_ui (main_exports ex_lib ex_now report_only ex_session)
       = s_ui (fst (export_options ex_lib ex_now report_only ex_session))
         @ [Error (''Error reading the CSV file: '' @ exn_str (TemplateNotFound ''report_template.html''))]"
    by blast
  then have "s_ui (main_exports ex_lib ex_now report_only ex_session)
       = [Error ''Error reading the CSV file: report_template.html'']"
    unfolding before by simp
  with failed fr lg show ?thesis
    by (simp add: ex_session_def)
qed

text \<open>
  C9 as stated fails: on a disk without the template the report export fails although its
  file could be written.
\<close>

theorem export_fails_without_write_error_counterexample:
  "on_export_report ex_lib ex_now ex_session = Inl (TemplateNotFound ''report_template.html'')
   \<and> writable (s_disk ex_session) (''export/eda_report_'' @ strftime_compact ex_now @ ''.html'')"
  by (simp add: on_export_report_def export_eda_report_def generate_eda_report_def
      ex_session_def ex_fs_def path_join_def)

section \<open>Properties of the ingestion\<close>

lemma contains_iff: "contains sub s \<longleftrightarrow> (\<exists>pre post. s = pre @ sub @ post)"
proof (induction s)
  case Nil
  then show ?case by auto
next
  case (Cons c s)
  show ?case
  proof
    assume "contains sub (c # s)"
    then consider "take (length sub) (c # s) = sub" | "contains sub s" by auto
    then show "\<exists>pre post. c # s = pre @ sub @ post"
    proof cases
      case 1
      then have "c # s = [] @ sub @ drop (length sub) (c # s)"
        by (metis append_Nil append_take_drop_id)
      then show ?thesis by blast
    next
      case 2
      with Cons.IH obtain pre post where "s = pre @ sub @ post" by blast
      then have "c # s = (c # pre) @ sub @ post" by simp
      then show ?thesis by blast
    qed
  next
    assume "\<exists>pre post. c # s = pre @ sub @ post"
    then obtain pre post where eq: "c # s = pre @ sub @ post" by blast
    show "contains sub (c # s)"
    proof (cases pre)
      case Nil
      with eq have "take (length sub) (c # s) = sub" by simp
      then show ?thesis by simp
    next
      case (Cons p pre')
      with eq have "s = pre' @ sub @ post" by simp
      with Cons.IH have "contains sub s" by blast
      then show ?thesis by simp
    qed
  qed
qed

lemma map_infix_conv:
  "(\<exists>pre post. map f xs = pre @ d @ post) \<longleftrightarrow> (\<exists>pre w post. xs = pre @ w @ post \<and> map f w = d)"
proof
  assume "\<exists>pre post. map f xs = pre @ d @ post"
  then obtain pre post where "map f xs = pre @ (d @ post)" by auto
  from this[unfolded map_eq_append_conv]
  obtain us vs where xs: "xs = us @ vs" and "map f vs = d @ post" by auto
  from this(2)[unfolded map_eq_append_conv]
  obtain ws zs where "vs = ws @ zs" and "map f ws = d" by auto
  with xs have "xs = us @ ws @ zs \<and> map f ws = d" by simp
  then show "\<exists>pre w post. xs = pre @ w @ post \<and> map f w = d" by blast
next
  assume "\<exists>pre w post. xs = pre @ w @ post \<and> map f w = d"
  then obtain pre w post where "xs = pre @ w @ post" and "map f w = d" by blast
  then have "map f xs = map f pre @ d @ map f post" by simp
  then show "\<exists>pre post. map f xs = pre @ d @ post" by blast
qed

lemma date_like_iff:
  "contains ''date'' (lower col)
     \<longleftrightarrow> (\<exists>pre w post. col = pre @ w @ post \<and> lower w = ''date'')"
  unfolding contains_iff lower_def by (rule map_infix_conv)



lemma char_eq_code: "c = d \<longleftrightarrow> (of_char c :: nat) = of_char d"
  by simp

lemma of_char_lower:
  "(of_char (lower_char c) :: nat)
     = (if 65 \<le> (of_char c :: nat) \<and> (of_char c :: nat) \<le> 90 then of_char c + 32 else of_char c)"
proof (cases "65 \<le> (of_char c :: nat) \<and> (of_char c :: nat) \<le> 90")
  case True
  then have "((of_char c :: nat) + 32) mod 256 = of_char c + 32" by simp
  with True show ?thesis by (simp add: lower_char_def of_char_of)
next
  case False
  then show ?thesis by (auto simp: lower_char_def)
qed

lemma lower_char_letters:
  "lower_char c = CHR ''d'' \<longleftrightarrow> c = CHR ''d'' \<or> c = CHR ''D''"
  "lower_char c = CHR ''a'' \<longleftrightarrow> c = CHR ''a'' \<or> c = CHR ''A''"
  "lower_char c = CHR ''t'' \<longleftrightarrow> c = CHR ''t'' \<or> c = CHR ''T''"
  "lower_char c = CHR ''e'' \<longleftrightarrow> c = CHR ''e'' \<or> c = CHR ''E''"
  unfolding char_eq_code[of "lower_char c"] char_eq_code[of c] of_char_lower
  by (auto split: if_splits)

lemma lower_date:
  "lower w = ''date''
     \<longleftrightarrow> (\<exists>c1 c2 c3 c4. w = [c1, c2, c3, c4]
            \<and> (c1 = CHR ''d'' \<or> c1 = CHR ''D'') \<and> (c2 = CHR ''a'' \<or> c2 = CHR ''A'')
            \<and> (c3 = CHR ''t'' \<or> c3 = CHR ''T'') \<and> (c4 = CHR ''e'' \<or> c4 = CHR ''E''))"
proof
  assume l: "lower w = ''date''"
  then have "length (lower w) = 4" by simp
  then have "length w = 4" by (simp add: lower_def)
  then obtain c1 c2 c3 c4 where w: "w = [c1, c2, c3, c4]"
    by (auto simp: length_Suc_conv numeral_eq_Suc)
  with l show "\<exists>c1 c2 c3 c4. w = [c1, c2, c3, c4]
            \<and> (c1 = CHR ''d'' \<or> c1 = CHR ''D'') \<and> (c2 = CHR ''a'' \<or> c2 = CHR ''A'')
            \<and> (c3 = CHR ''t'' \<or> c3 = CHR ''T'') \<and> (c4 = CHR ''e'' \<or> c4 = CHR ''E'')"
    by (simp add: lower_def lower_char_letters)
next
  assume "\<exists>c1 c2 c3 c4. w = [c1, c2, c3, c4]
            \<and> (c1 = CHR ''d'' \<or> c1 = CHR ''D'') \<and> (c2 = CHR ''a'' \<or> c2 = CHR ''A'')
            \<and> (c3 = CHR ''t'' \<or> c3 = CHR ''T'') \<and> (c4 = CHR ''e'' \<or> c4 = CHR ''E'')"
  then obtain c1 c2 c3 c4 where w: "w = [c1, c2, c3, c4]"
    and c: "c1 = CHR ''d'' \<or> c1 = CHR ''D''" "c2 = CHR ''a'' \<or> c2 = CHR ''A''"
           "c3 = CHR ''t'' \<or> c3 = CHR ''T''" "c4 = CHR ''e'' \<or> c4 = CHR ''E''"
    by blast
  from c have "lower_char c1 = CHR ''d''" "lower_char c2 = CHR ''a''"
      "lower_char c3 = CHR ''t''" "lower_char c4 = CHR ''e''"
    by (simp_all only: lower_char_letters)
  with w show "lower w = ''date''" by (simp add: lower_def)
qed

lemma astype_loop_result:
  assumes "distinct (map fst df)" "distinct cols" "set cols \<subseteq> fst ` set df"
  shows "astype_loop pd repr cols dc df
       = map (\<lambda>(n, s). if n \<in> set cols \<and> n \<notin> set dc then (n, astype_str pd repr s) else (n, s)) df"
  using assms
proof (induction cols arbitrary: df)
  case Nil
  have "map (\<lambda>(n, s). (n, s)) df = df" by (intro map_idI) auto
  then show ?case by (simp add: case_prod_unfold)
next
  case (Cons col cols)
  from Cons.prems obtain s where s: "getitem df col = Some s" and mem: "(col, s) \<in> set df"
    by (auto simp: getitem_def)
  have colin: "col \<in> fst ` set df" using mem by (auto simp: image_iff intro: bexI[of _ "(col, s)"])
  have notin: "col \<notin> set cols" and dcols: "distinct cols" and sub: "set cols \<subseteq> fst ` set df"
    using Cons.prems by auto
  have uniq: "t = s" if "(col, t) \<in> set df" for t
    using that mem Cons.prems(1) by (metis eq_key_imp_eq_value)
  show ?case
  proof (cases "col \<in> set dc")
    case True
    have "map (\<lambda>(n, s). if n \<in> set (col # cols) \<and> n \<notin> set dc then (n, astype_str pd repr s) else (n, s)) df
        = map (\<lambda>(n, s). if n \<in> set cols \<and> n \<notin> set dc then (n, astype_str pd repr s) else (n, s)) df"
      by (rule map_cong[OF refl]) (use True in auto)
    with True Cons.IH[OF Cons.prems(1) dcols sub] show ?thesis by simp
  next
    case False
    let ?s' = "astype_str pd repr s"
    let ?df1 = "setitem df col ?s'"
    have df1: "?df1 = map (\<lambda>(n, t). if n = col then (n, ?s') else (n, t)) df"
      by (rule setitem_map[OF colin Cons.prems(1)])
    have names1: "map fst ?df1 = map fst df"
      by (rule map_fst_setitem[OF colin])
    have d1: "distinct (map fst ?df1)" using Cons.prems(1) names1 by simp
    have sub1: "set cols \<subseteq> fst ` set ?df1"
      using sub names1 by (metis set_map)
    have "map (\<lambda>(n, s). if n \<in> set cols \<and> n \<notin> set dc then (n, astype_str pd repr s) else (n, s)) ?df1
        = map (\<lambda>(n, s). if n \<in> set (col # cols) \<and> n \<notin> set dc then (n, astype_str pd repr s) else (n, s)) df"
      unfolding df1 map_map
    proof (rule map_cong[OF refl])
      fix p assume p: "p \<in> set df"
      obtain n t where nt: "p = (n, t)" by (cases p)
      have "n = col \<Longrightarrow> t = s" using uniq p nt by simp
      with False nt notin
      show "((\<lambda>(n, s). if n \<in> set cols \<and> n \<notin> set dc then (n, astype_str pd repr s) else (n, s)) \<circ>
             (\<lambda>(n, t). if n = col then (n, ?s') else (n, t))) p
          = (case p of (n, s) \<Rightarrow> if n \<in> set (col # cols) \<and> n \<notin> set dc then (n, astype_str pd repr s) else (n, s))"
        by auto
    qed
    with False s Cons.IH[OF d1 dcols sub1] show ?thesis by simp
  qed
qed

lemma coercion_frame:
  assumes "distinct (columns df)"
  shows "astype_loop pd repr (select_dtypes_object df) dc df
       = map (\<lambda>(n, s). (n, if dtype s = Object \<and> n \<notin> set dc then astype_str pd repr s else s)) df"
proof -
  have d: "distinct (map fst df)" using assms by (simp add: columns_def)
  have dsel: "distinct (select_dtypes_object df)"
    using d by (simp add: select_dtypes_object_def distinct_map_filter)
  have sub: "set (select_dtypes_object df) \<subseteq> fst ` set df"
    by (auto simp: select_dtypes_object_def)
  have sel: "n \<in> set (select_dtypes_object df) \<longleftrightarrow> dtype s = Object" if "(n, s) \<in> set df" for n s
    using that d by (auto simp: select_dtypes_object_def image_iff dest: eq_key_imp_eq_value)
  show ?thesis
    unfolding astype_loop_result[OF d dsel sub]
    by (rule map_cong[OF refl]) (auto simp: sel)
qed

lemma date_like_eq:
  "date_like cols
     = filter (\<lambda>col. \<exists>pre c1 c2 c3 c4 post. col = pre @ [c1, c2, c3, c4] @ post
                 \<and> (c1 = CHR ''d'' \<or> c1 = CHR ''D'') \<and> (c2 = CHR ''a'' \<or> c2 = CHR ''A'')
                 \<and> (c3 = CHR ''t'' \<or> c3 = CHR ''T'') \<and> (c4 = CHR ''e'' \<or> c4 = CHR ''E'')) cols"
proof -
  have "contains ''date'' (lower col)
      \<longleftrightarrow> (\<exists>pre c1 c2 c3 c4 post. col = pre @ [c1, c2, c3, c4] @ post
                 \<and> (c1 = CHR ''d'' \<or> c1 = CHR ''D'') \<and> (c2 = CHR ''a'' \<or> c2 = CHR ''A'')
                 \<and> (c3 = CHR ''t'' \<or> c3 = CHR ''T'') \<and> (c4 = CHR ''e'' \<or> c4 = CHR ''E''))" for col
    unfolding date_like_iff lower_date by blast
  then show ?thesis by (simp add: date_like_def)
qed

text \<open>
  C7 (amended). When the first parse gives a frame and the second parse, of the whole
  buffer, gives a frame with distinct column names, then the date-like columns are the
  names of the first frame that hold the letters d, a, t, e in a row, each in either case,
  in column order; the second parse gets them as its date hint when there is one, and no
  hint otherwise; the page gains the notice of the columns parsed as dates, or the warning
  that no date columns were detected; and in the loaded frame every column of dtype
  \<open>object\<close> outside the date-like columns is converted with \<open>astype(str)\<close>, which,
  where text is not of dtype \<open>str\<close>, leaves text cells only, a missing cell having become
  the text "nan", and where it is, keeps the missing cells; every other column,
  a text column of dtype \<open>str\<close> among them, is as parsed.
\<close>

theorem load_dataset_date_columns:
  assumes "parse (drop (offset f) (buffer f)) None = Inr df0"
    and "parse (buffer f) (if date_like (columns df0) = [] then None
                           else Some (date_like (columns df0))) = Inr df"
    and "distinct (columns df)"
  shows "date_like (columns df0)
           = filter (\<lambda>col. \<exists>pre c1 c2 c3 c4 post. col = pre @ [c1, c2, c3, c4] @ post
                 \<and> (c1 = CHR ''d'' \<or> c1 = CHR ''D'') \<and> (c2 = CHR ''a'' \<or> c2 = CHR ''A'')
                 \<and> (c3 = CHR ''t'' \<or> c3 = CHR ''T'') \<and> (c4 = CHR ''e'' \<or> c4 = CHR ''E''))
               (columns df0)
       \<and> load_dataset parse pd repr f ui
           = Inr (map (\<lambda>(n, s).
                     (n, if dtype s = Object \<and> n \<notin> set (date_like (columns df0))
                         then (if infer_string pd
                               then Series StringDtype
                                      (map (\<lambda>c. if c = NA then NA else Str (str_cell repr c)) (cells s))
                               else Series Object (map (\<lambda>c. Str (str_cell repr c)) (cells s)))
                         else s)) df,
                  date_like (columns df0),
                  f\<lparr>offset := length (buffer f)\<rparr>,
                  ui @ [if date_like (columns df0) = []
                        then Warning ''No date columns detected in the dataset''
                        else Info (''Date parsing applied to columns: ''
                                   @ join_with '', '' (date_like (columns df0)))])
       \<and> str_cell repr NA = ''nan''
       \<and> (\<forall>t. str_cell repr (Str t) = t)
       \<and> (\<not> infer_string pd \<longrightarrow>
            (\<forall>frame dc f' ui'. load_dataset parse pd repr f ui = Inr (frame, dc, f', ui') \<longrightarrow>
              (\<forall>(n, s)\<in>set frame. dtype s = Object \<and> n \<notin> set dc \<longrightarrow>
                 (\<forall>c\<in>set (cells s). \<exists>t. c = Str t))))"
proof -
  let ?dc = "date_like (columns df0)"
  let ?conv = "\<lambda>s. if infer_string pd
                     then Series StringDtype
                            (map (\<lambda>c. if c = NA then NA else Str (str_cell repr c)) (cells s))
                     else Series Object (map (\<lambda>c. Str (str_cell repr c)) (cells s))"
  let ?frame = "map (\<lambda>(n, s). (n, if dtype s = Object \<and> n \<notin> set ?dc then ?conv s else s)) df"
  have conv: "astype_str pd repr s = ?conv s" for s
    by (simp add: astype_str_def)
  have loop: "astype_loop pd repr (select_dtypes_object df) ?dc df = ?frame"
    unfolding coercion_frame[OF assms(3)] conv ..
  have run: "load_dataset parse pd repr f ui
           = Inr (?frame, ?dc, f\<lparr>offset := length (buffer f)\<rparr>,
                  ui @ [if ?dc = [] then Warning ''No date columns detected in the dataset''
                        else Info (''Date parsing applied to columns: '' @ join_with '', '' ?dc)])"
  proof (cases "?dc = []")
    case True
    with assms(2) have "parse (buffer f) None = Inr df" by simp
    with assms(1) True show ?thesis
      unfolding loop[symmetric] by (simp add: load_dataset_def read_csv_def seek_def Let_def)
  next
    case False
    with assms(2) have "parse (buffer f) (Some ?dc) = Inr df" by simp
    with assms(1) False show ?thesis
      unfolding loop[symmetric] by (simp add: load_dataset_def read_csv_def seek_def Let_def)
  qed
  have textual: "\<forall>c\<in>set (cells s). \<exists>t. c = Str t"
    if "\<not> infer_string pd" "(n, s) \<in> set ?frame" "dtype s = Object" "n \<notin> set ?dc" for n s
  proof -
    from that(2) obtain s0 where "(n, s0) \<in> set df"
      and s: "s = (if dtype s0 = Object \<and> n \<notin> set ?dc then ?conv s0 else s0)"
      by auto
    with that(1,3,4) have "s = Series Object (map (\<lambda>c. Str (str_cell repr c)) (cells s0))"
      by (auto split: if_splits)
    then show ?thesis by auto
  qed
  have last: "\<not> infer_string pd \<longrightarrow>
            (\<forall>frame dc f' ui'. load_dataset parse pd repr f ui = Inr (frame, dc, f', ui') \<longrightarrow>
              (\<forall>(n, s)\<in>set frame. dtype s = Object \<and> n \<notin> set dc \<longrightarrow>
                 (\<forall>c\<in>set (cells s). \<exists>t. c = Str t)))"
    unfolding run using textual by blast
  have sc: "str_cell repr NA = ''nan''" "\<forall>t. str_cell repr (Str t) = t"
    by (simp_all add: str_cell_def)
  from date_like_eq[of "columns df0"] run sc last show ?thesis
    by (intro conjI) assumption+
qed

lemma ex_parse_first: "ex_parse (drop (offset ex_upload) (buffer ex_upload)) None
    = Inr (ex_frame Object None)"
  by (simp add: ex_parse_def ex_upload_def)

lemma ex_date_like:
  "date_like [''id'', ''Code'', ''DATE_A'', ''start_dAtE'', ''data''] = [''DATE_A'', ''start_dAtE'']"
  by code_simp

theorem load_dataset_date_columns_witness:
  "ex_parse (drop (offset ex_upload) (buffer ex_upload)) None = Inr (ex_frame Object None)
   \<and> columns (ex_frame Object None) = [''id'', ''Code'', ''DATE_A'', ''start_dAtE'', ''data'']
   \<and> date_like (columns (ex_frame Object None)) = [''DATE_A'', ''start_dAtE'']
   \<and> ex_parse (buffer ex_upload) (Some [''DATE_A'', ''start_dAtE''])
       = Inr (ex_frame Object (Some [''DATE_A'', ''start_dAtE'']))
   \<and> distinct (columns (ex_frame Object (Some [''DATE_A'', ''start_dAtE''])))
   \<and> load_dataset ex_parse pandas2 (\<lambda>c. ''?'') ex_upload []
     = Inr ([(''id'', Series Int64 [Num 1, Num 2]),
             (''Code'', Series Object [Str ''x7'', Str ''nan'']),
             (''DATE_A'', Series (Datetime64 Nanos None) [Time 19723, Time 19724]),
             (''start_dAtE'', Series (Datetime64 Nanos None) [Time 19754, Time 19755]),
             (''data'', Series Int64 [Num 1, Num 2])],
            [''DATE_A'', ''start_dAtE''],
            ex_upload\<lparr>offset := length (buffer ex_upload)\<rparr>,
            [Info ''Date parsing applied to columns: DATE_A, start_dAtE''])"
proof -
  let ?raw = "ex_frame Object None"
  let ?parsed = "ex_frame Object (Some [''DATE_A'', ''start_dAtE''])"
  have cols: "columns ?raw = [''id'', ''Code'', ''DATE_A'', ''start_dAtE'', ''data'']"
    by (simp add: columns_def ex_frame_def)
  have dc: "date_like (columns ?raw) = [''DATE_A'', ''start_dAtE'']"
    unfolding cols by (rule ex_date_like)
  have second: "ex_parse (buffer ex_upload) (Some [''DATE_A'', ''start_dAtE'']) = Inr ?parsed"
    by (simp add: ex_parse_def ex_upload_def)
  have second': "ex_parse (buffer ex_upload)
      (if date_like (columns ?raw) = [] then None else Some (date_like (columns ?raw))) = Inr ?parsed"
    unfolding dc using second by simp
  have dist: "distinct (columns ?parsed)"
    by (simp add: columns_def ex_frame_def)
  have p2: "\<not> infer_string pandas2" by (simp add: pandas2_def)
  from load_dataset_date_columns[OF ex_parse_first second' dist, where repr = "\<lambda>c. ''?''" and ui = "[]" and pd = pandas2]
  have "load_dataset ex_parse pandas2 (\<lambda>c. ''?'') ex_upload []
           = Inr (map (\<lambda>(n, s).
                     (n, if dtype s = Object \<and> n \<notin> set (date_like (columns ?raw))
                         then (if infer_string pandas2
                               then Series StringDtype
                                      (map (\<lambda>c. if c = NA then NA else Str (str_cell (\<lambda>c. ''?'') c)) (cells s))
                               else Series Object (map (\<lambda>c. Str (str_cell (\<lambda>c. ''?'') c)) (cells s)))
                         else s)) ?parsed,
                  date_like (columns ?raw),
                  ex_upload\<lparr>offset := length (buffer ex_upload)\<rparr>,
                  [] @ [if date_like (columns ?raw) = []
                        then Warning ''No date columns detected in the dataset''
                        else Info (''Date parsing applied to columns: ''
                                   @ join_with '', '' (date_like (columns ?raw)))])"
    by blast
  then have "load_dataset ex_parse pandas2 (\<lambda>c. ''?'') ex_upload []
     = Inr ([(''id'', Series Int64 [Num 1, Num 2]),
             (''Code'', Series Object [Str ''x7'', Str ''nan'']),
             (''DATE_A'', Series (Datetime64 Nanos None) [Time 19723, Time 19724]),
             (''start_dAtE'', Series (Datetime64 Nanos None) [Time 19754, Time 19755]),
             (''data'', Series Int64 [Num 1, Num 2])],
            [''DATE_A'', ''start_dAtE''],
            ex_upload\<lparr>offset := length (buffer ex_upload)\<rparr>,
            [Info ''Date parsing applied to columns: DATE_A, start_dAtE''])"
    unfolding dc by (simp add: str_cell_def ex_frame_def p2)
  with ex_parse_first cols dc second dist show ?thesis by blast
qed

text \<open>
  C7 as stated fails: where the parser gives a text column the dtype \<open>str\<close>, as pandas 3
  does, the column is not among the columns of dtype \<open>object\<close>, nothing is converted, and
  its missing cell stays missing.
\<close>

theorem text_column_not_coerced_counterexample:
  "date_like (columns (ex_frame StringDtype None)) = [''DATE_A'', ''start_dAtE'']
   \<and> load_dataset ex_parse3 pandas3 (\<lambda>c. ''?'') ex_upload []
     = Inr ([(''id'', Series Int64 [Num 1, Num 2]),
             (''Code'', Series StringDtype [Str ''x7'', NA]),
             (''DATE_A'', Series (Datetime64 Nanos None) [Time 19723, Time 19724]),
             (''start_dAtE'', Series (Datetime64 Nanos None) [Time 19754, Time 19755]),
             (''data'', Series Int64 [Num 1, Num 2])],
            [''DATE_A'', ''start_dAtE''],
            \<lparr>buffer = ex_csv, offset = length ex_csv\<rparr>,
            [Info ''Date parsing applied to columns: DATE_A, start_dAtE''])"
  by code_simp


section \<open>Properties of the advisory functions\<close>

text \<open>
  Both advisory functions look up \<open>os.get_env\<close> first, so whatever the environment,
  the service, the summary and the task are, they raise AttributeError.
\<close>

lemma advisory_always_raises:
  "get_cleaning_suggestions env create data_summary ml_task
     = Inl (AttributeError (''module '' @ squote ''os'' @ '' has no attribute '' @ squote ''get_env''))
   \<and> get_additional_checks env create data_summary ml_task
     = Inl (AttributeError (''module '' @ squote ''os'' @ '' has no attribute '' @ squote ''get_env''))"
  by (simp add: get_cleaning_suggestions_def get_additional_checks_def os_getattr_def)

text \<open>
  C1 (the code departs from the claim). With no credential in the environment both
  advisory functions raise AttributeError at the lookup of \<open>os.get_env\<close>; they do not
  return the fixed message that the key is not set.
\<close>

theorem advisory_without_credential_raises:
  "get_cleaning_suggestions Map.empty ex_service ''id: count 2'' ''Other''
     = Inl (AttributeError (''module '' @ squote ''os'' @ '' has no attribute '' @ squote ''get_env''))
   \<and> get_additional_checks Map.empty ex_service ''id: count 2'' ''Other''
     = Inl (AttributeError (''module '' @ squote ''os'' @ '' has no attribute '' @ squote ''get_env''))
   \<and> get_cleaning_suggestions Map.empty ex_service ''id: count 2'' ''Other'' \<noteq> Inr key_not_set"
  by (simp add: get_cleaning_suggestions_def get_additional_checks_def os_getattr_def)

end
